theory Spec2Isabelle
  imports Complex_Main
begin

section \<open>IEEE 754 binary32 arithmetic, as used by \<^verbatim>\<open>float\<close> in main.cpp\<close>

text \<open>
  Every animation variable of the program is a C++ \<^verbatim>\<open>float\<close>.  A value is a finite
  real, an infinity or a NaN.  The sign of zero is not modelled: the program never
  prints a float, every comparison treats both zeros alike, and the only divisor
  (\<^verbatim>\<open>steps\<close> in the DDA helpers) comes out of \<^verbatim>\<open>fabs\<close>.
\<close>

datatype f32 = Finite real | PosInf | NegInf | NaN

text \<open>\<open>ilog2 n\<close> is the position of the leading bit of \<open>n\<close>.\<close>

fun ilog2 :: "nat \<Rightarrow> nat" where
  "ilog2 n = (if n < 2 then 0 else Suc (ilog2 (n div 2)))"

text \<open>\<open>expo x\<close> is the binary exponent of \<open>x \<noteq> 0\<close>: \<open>2 ^ expo x \<le> |x| < 2 ^ (expo x + 1)\<close>.\<close>

definition expo :: "real \<Rightarrow> int" where
  "expo x = (if 1 \<le> \<bar>x\<bar> then int (ilog2 (nat \<lfloor>\<bar>x\<bar>\<rfloor>))
             else - int (Suc (ilog2 (nat (\<lceil>1 / \<bar>x\<bar>\<rceil> - 1)))))"

text \<open>
  The exponent of the last place of a binary32 number near \<open>x\<close>: 24 significant
  bits, and never below the subnormal spacing \<open>2 ^ -149\<close>.
\<close>

definition qexp :: "real \<Rightarrow> int" where
  "qexp x = max (expo x - 23) (- 149)"

definition pow2 :: "int \<Rightarrow> real" where
  "pow2 e = (if 0 \<le> e then 2 ^ nat e else 1 / 2 ^ nat (- e))"

text \<open>Round to the nearest integer, ties to the even one.\<close>

definition rne :: "real \<Rightarrow> int" where
  "rne q = (let f = \<lfloor>q\<rfloor>; r = q - of_int f
            in if r < 1 / 2 then f
               else if 1 / 2 < r then f + 1
               else if even f then f else f + 1)"

text \<open>
  Rounding of an exact result to binary32 (round to nearest, ties to even):
  \<open>round_val\<close> is the rounded value with an unbounded exponent range, and a result
  that rounds to magnitude \<open>2 ^ 128\<close> or more overflows to an infinity.
\<close>

definition round_val :: "real \<Rightarrow> real" where
  "round_val x = (if x = 0 then 0
                  else let e = qexp x in of_int (rne (x / pow2 e)) * pow2 e)"

definition f32_round :: "real \<Rightarrow> f32" where
  "f32_round x =
     (let y = round_val x
      in if 2 ^ 128 \<le> \<bar>y\<bar> then (if 0 < x then PosInf else NegInf) else Finite y)"

fun f32_neg :: "f32 \<Rightarrow> f32" where
  "f32_neg (Finite a) = Finite (- a)"
| "f32_neg PosInf = NegInf"
| "f32_neg NegInf = PosInf"
| "f32_neg NaN = NaN"

fun f32_add :: "f32 \<Rightarrow> f32 \<Rightarrow> f32" where
  "f32_add (Finite a) (Finite b) = f32_round (a + b)"
| "f32_add NaN _ = NaN"
| "f32_add _ NaN = NaN"
| "f32_add PosInf NegInf = NaN"
| "f32_add NegInf PosInf = NaN"
| "f32_add PosInf _ = PosInf"
| "f32_add NegInf _ = NegInf"
| "f32_add _ PosInf = PosInf"
| "f32_add _ NegInf = NegInf"

definition f32_sub :: "f32 \<Rightarrow> f32 \<Rightarrow> f32" where
  "f32_sub a b = f32_add a (f32_neg b)"

text \<open>
  Comparisons: every comparison with a NaN is false.  \<open>f32_lt a b\<close> is \<^verbatim>\<open>a < b\<close>,
  \<open>f32_le a b\<close> is \<^verbatim>\<open>a <= b\<close>; \<^verbatim>\<open>a > b\<close> is \<open>f32_lt b a\<close> and \<^verbatim>\<open>a >= b\<close> is
  \<open>f32_le b a\<close>.
\<close>

fun f32_lt :: "f32 \<Rightarrow> f32 \<Rightarrow> bool" where
  "f32_lt (Finite a) (Finite b) = (a < b)"
| "f32_lt NaN _ = False"
| "f32_lt _ NaN = False"
| "f32_lt PosInf _ = False"
| "f32_lt _ NegInf = False"
| "f32_lt NegInf _ = True"
| "f32_lt _ PosInf = True"

fun f32_le :: "f32 \<Rightarrow> f32 \<Rightarrow> bool" where
  "f32_le (Finite a) (Finite b) = (a \<le> b)"
| "f32_le NaN _ = False"
| "f32_le _ NaN = False"
| "f32_le NegInf _ = True"
| "f32_le _ PosInf = True"
| "f32_le PosInf _ = False"
| "f32_le _ NegInf = False"

text \<open>\<^verbatim>\<open>std::max(a, b)\<close> is \<^verbatim>\<open>(a < b) ? b : a\<close>.\<close>

definition f32_max :: "f32 \<Rightarrow> f32 \<Rightarrow> f32" where
  "f32_max a b = (if f32_lt a b then b else a)"

fun f32_fabs :: "f32 \<Rightarrow> f32" where
  "f32_fabs (Finite a) = Finite \<bar>a\<bar>"
| "f32_fabs PosInf = PosInf"
| "f32_fabs NegInf = PosInf"
| "f32_fabs NaN = NaN"

text \<open>Truncation towards zero, and \<^verbatim>\<open>fmodf\<close>, whose result is exact.\<close>

definition trunc :: "real \<Rightarrow> int" where
  "trunc r = (if 0 \<le> r then \<lfloor>r\<rfloor> else \<lceil>r\<rceil>)"

fun f32_fmod :: "f32 \<Rightarrow> f32 \<Rightarrow> f32" where
  "f32_fmod (Finite a) (Finite b) =
     (if b = 0 then NaN else Finite (a - b * of_int (trunc (a / b))))"
| "f32_fmod NaN _ = NaN"
| "f32_fmod _ NaN = NaN"
| "f32_fmod PosInf _ = NaN"
| "f32_fmod NegInf _ = NaN"
| "f32_fmod (Finite a) _ = Finite a"

fun f32_div :: "f32 \<Rightarrow> f32 \<Rightarrow> f32" where
  "f32_div (Finite a) (Finite b) =
     (if b = 0 then (if a = 0 then NaN else if 0 < a then PosInf else NegInf)
      else f32_round (a / b))"
| "f32_div NaN _ = NaN"
| "f32_div _ NaN = NaN"
| "f32_div (Finite a) _ = Finite 0"
| "f32_div PosInf (Finite b) = (if 0 \<le> b then PosInf else NegInf)"
| "f32_div NegInf (Finite b) = (if 0 \<le> b then NegInf else PosInf)"
| "f32_div _ _ = NaN"

text \<open>The float literals of the source, each the decimal rounded to binary32.\<close>

definition lit :: "real \<Rightarrow> f32" where
  "lit d = f32_round d"

section \<open>The animation state and its two mutators\<close>

text \<open>The global animation variables of main.cpp (lines 13 to 30).\<close>

record anim =
  boatPos :: f32
  boatSpeed :: f32
  waterTime :: f32
  trainPos :: f32
  trainSpeed :: f32
  paused :: bool
  trafficTimer :: f32

definition V_WIDTH :: f32 where
  "V_WIDTH = lit 800"

definition initial :: anim where
  "initial = \<lparr> boatPos = lit (- 120), boatSpeed = lit 1.2, waterTime = lit 0,
               trainPos = lit (- 520), trainSpeed = lit 2.8, paused = False,
               trafficTimer = lit 0 \<rparr>"

text \<open>
  \<^verbatim>\<open>update\<close> (lines 890 to 909).  The redisplay request and the re-arming of the
  timer do not touch the animation variables and are left out.
\<close>

definition update_train :: "anim \<Rightarrow> anim" where
  "update_train s =
     (let s1 = s\<lparr>trainPos := f32_add (trainPos s) (trainSpeed s)\<rparr>
      in if f32_lt (f32_add V_WIDTH (lit 360)) (trainPos s1)
         then s1\<lparr>trainPos := lit (- 760)\<rparr> else s1)"

definition update_boat :: "anim \<Rightarrow> anim" where
  "update_boat s =
     (let s1 = s\<lparr>boatPos := f32_add (boatPos s) (boatSpeed s)\<rparr>
      in if f32_lt (f32_add V_WIDTH (lit 120)) (boatPos s1)
         then s1\<lparr>boatPos := lit (- 150)\<rparr> else s1)"

definition update_traffic :: "anim \<Rightarrow> anim" where
  "update_traffic s =
     (let s1 = s\<lparr>trafficTimer := f32_add (trafficTimer s) (lit 0.016)\<rparr>
      in if f32_le (lit 100000) (trafficTimer s1)
         then s1\<lparr>trafficTimer := f32_fmod (trafficTimer s1) (lit 100000)\<rparr> else s1)"

definition update :: "anim \<Rightarrow> anim" where
  "update s =
     (let s1 = (if \<not> paused s then update_traffic (update_boat (update_train s)) else s)
      in s1\<lparr>waterTime := f32_add (waterTime s1) (lit 0.016)\<rparr>)"

text \<open>
  \<^verbatim>\<open>keyboard\<close> (lines 912 to 927).  \<^verbatim>\<open>exit(0)\<close> ends the process: the result
  \<open>None\<close>.  The mouse coordinates are not used.
\<close>

definition keyboard :: "char \<Rightarrow> anim \<Rightarrow> anim option" where
  "keyboard key s =
     (if key = CHR 0x1B then None
      else if key = CHR '' '' then Some (s\<lparr>paused := \<not> paused s\<rparr>)
      else if key = CHR ''+'' then Some (s\<lparr>trainSpeed := f32_add (trainSpeed s) (lit 0.2)\<rparr>)
      else if key = CHR ''-'' then
        Some (s\<lparr>trainSpeed := f32_max (lit 0.2) (f32_sub (trainSpeed s) (lit 0.2))\<rparr>)
      else Some s)"

text \<open>\<open>ticks n s\<close>: the timer callback run \<open>n\<close> times.\<close>

fun ticks :: "nat \<Rightarrow> anim \<Rightarrow> anim" where
  "ticks 0 s = s"
| "ticks (Suc n) s = ticks n (update s)"

text \<open>
  The GLUT main loop delivers timer and keyboard callbacks one at a time.  A run
  is the list of callbacks delivered so far; it ends when \<^verbatim>\<open>keyboard\<close> exits.
\<close>

datatype event = Tick | Key char

fun run :: "event list \<Rightarrow> anim \<Rightarrow> anim option" where
  "run [] s = Some s"
| "run (Tick # es) s = run es (update s)"
| "run (Key k # es) s = (case keyboard k s of None \<Rightarrow> None | Some s' \<Rightarrow> run es s')"

section \<open>Traffic signals\<close>

text \<open>
  \<^verbatim>\<open>drawTrafficSignal\<close> (lines 443 to 446): which of the three lamps is lit, as
  \<open>(redOn, greenOn, yellowOn)\<close>, from the timer and the phase offset of the signal.
\<close>

definition signal_lamps :: "f32 \<Rightarrow> f32 \<Rightarrow> bool \<times> bool \<times> bool" where
  "signal_lamps timer phaseOffsetSec =
     (let t = f32_fmod (f32_add timer phaseOffsetSec) (lit 6)
      in (f32_lt t (lit 2.5),
          f32_le (lit 2.5) t \<and> f32_lt t (lit 5),
          f32_le (lit 5) t))"

text \<open>\<^verbatim>\<open>drawTrafficSignals\<close> (lines 483 to 491) draws two signals, offsets 0 and 3.\<close>

definition drawTrafficSignals :: "anim \<Rightarrow> (bool \<times> bool \<times> bool) \<times> (bool \<times> bool \<times> bool)" where
  "drawTrafficSignals s =
     (signal_lamps (trafficTimer s) (lit 0), signal_lamps (trafficTimer s) (lit 3))"

section \<open>The DDA line helpers and the lamp posts\<close>

text \<open>
  The loop \<^verbatim>\<open>for(int i = 0; i <= steps; i++)\<close> of both helpers: \<open>i\<close> is a 32-bit
  \<^verbatim>\<open>int\<close>, converted to \<^verbatim>\<open>float\<close> for the comparison.  Incrementing \<open>i\<close> past
  \<open>2 ^ 31 - 1\<close> is undefined behaviour: the result \<open>None\<close>.  Otherwise the result is
  the list of points given to \<^verbatim>\<open>glVertex2f\<close>.
\<close>

function dda_loop :: "int \<Rightarrow> f32 \<Rightarrow> f32 \<Rightarrow> f32 \<Rightarrow> f32 \<Rightarrow> f32 \<Rightarrow> (f32 \<times> f32) list option" where
  "dda_loop i steps x y xInc yInc =
     (if 0 \<le> i \<and> i < 2 ^ 31 \<and> f32_le (f32_round (of_int i)) steps
      then (if i = 2 ^ 31 - 1 then None
            else map_option ((#) (x, y))
                   (dda_loop (i + 1) steps (f32_add x xInc) (f32_add y yInc) xInc yInc))
      else Some [])"
  by pat_completeness auto
termination
  by (relation "measure (\<lambda>(i, steps, x, y, xInc, yInc). nat (2 ^ 31 - i))") auto

text \<open>\<^verbatim>\<open>drawLineDDA\<close> (lines 81 to 99): the step count, and the points drawn.\<close>

definition drawLineDDA_steps :: "f32 \<Rightarrow> f32 \<Rightarrow> f32 \<Rightarrow> f32 \<Rightarrow> f32" where
  "drawLineDDA_steps x1 y1 x2 y2 =
     (let dx = f32_sub x2 x1; dy = f32_sub y2 y1
      in if f32_lt (f32_fabs dy) (f32_fabs dx) then f32_fabs dx else f32_fabs dy)"

definition drawLineDDA :: "f32 \<Rightarrow> f32 \<Rightarrow> f32 \<Rightarrow> f32 \<Rightarrow> (f32 \<times> f32) list option" where
  "drawLineDDA x1 y1 x2 y2 =
     (let dx = f32_sub x2 x1; dy = f32_sub y2 y1;
          steps = (if f32_lt (f32_fabs dy) (f32_fabs dx) then f32_fabs dx else f32_fabs dy);
          xInc = f32_div dx steps; yInc = f32_div dy steps
      in dda_loop 0 steps x1 y1 xInc yInc)"

text \<open>\<^verbatim>\<open>drawLineDDA_Lamp\<close> (lines 102 to 120).\<close>

definition drawLineDDA_Lamp_steps :: "f32 \<Rightarrow> f32 \<Rightarrow> f32 \<Rightarrow> f32 \<Rightarrow> f32" where
  "drawLineDDA_Lamp_steps x1 y1 x2 y2 =
     (let dx = f32_sub x2 x1; dy = f32_sub y2 y1
      in if f32_lt (f32_fabs dy) (f32_fabs dx) then f32_fabs dx else f32_fabs dy)"

definition drawLineDDA_Lamp :: "f32 \<Rightarrow> f32 \<Rightarrow> f32 \<Rightarrow> f32 \<Rightarrow> (f32 \<times> f32) list option" where
  "drawLineDDA_Lamp x1 y1 x2 y2 =
     (let dx = f32_sub x2 x1; dy = f32_sub y2 y1;
          steps = (if f32_lt (f32_fabs dy) (f32_fabs dx) then f32_fabs dx else f32_fabs dy);
          xInc = f32_div dx steps; yInc = f32_div dy steps
      in dda_loop 0 steps x1 y1 xInc yInc)"

text \<open>
  \<^verbatim>\<open>drawDDALampPost\<close> (lines 125 to 145) calls \<^verbatim>\<open>drawLineDDA_Lamp\<close> three times:
  the pole, the arm and the lamp head.  \<open>lamp_post_calls\<close> lists the arguments
  \<open>(x1, y1, x2, y2)\<close> of the three calls, in order.
\<close>

definition lamp_post_calls :: "f32 \<Rightarrow> f32 \<Rightarrow> (f32 \<times> f32 \<times> f32 \<times> f32) list" where
  "lamp_post_calls x groundY =
     (let poleHeight = lit 170;
          armY = f32_add groundY poleHeight;
          headBottomY = f32_sub armY (lit 12)
      in [(x, groundY, x, armY),
          (x, armY, f32_add x (lit 22), armY),
          (f32_add x (lit 22), armY, f32_add x (lit 22), headBottomY)])"

text \<open>\<^verbatim>\<open>drawThreeDDALamps\<close> (lines 719 to 725): every call of the helper the program makes.\<close>

definition three_lamps_calls :: "(f32 \<times> f32 \<times> f32 \<times> f32) list" where
  "three_lamps_calls =
     (let groundY = lit 120
      in lamp_post_calls (lit 180) groundY @ lamp_post_calls (lit 420) groundY
         @ lamp_post_calls (lit 660) groundY)"

section \<open>Notions used in the statements\<close>

text \<open>
  The reals a binary32 variable can hold: 24 significant bits, the exponent of the
  last place between \<open>-149\<close> and \<open>104\<close>.
\<close>

definition is_f32 :: "real \<Rightarrow> bool" where
  "is_f32 x \<longleftrightarrow> (\<exists>m e. x = of_int m * pow2 e \<and> \<bar>m\<bar> < 2 ^ 24 \<and> - 149 \<le> e \<and> e \<le> 104)"

text \<open>\<open>adds n c p\<close>: the float \<open>c\<close> added \<open>n\<close> times to \<open>p\<close>, each sum rounded.\<close>

fun adds :: "nat \<Rightarrow> f32 \<Rightarrow> f32 \<Rightarrow> f32" where
  "adds 0 c p = p"
| "adds (Suc n) c p = f32_add (adds n c p) c"

text \<open>
  The ranges the animation variables stay in during a run: the positions and the
  traffic timer through the clamps of \<^verbatim>\<open>update\<close>, the train speed from below
  through the clamp of \<^verbatim>\<open>keyboard\<close>; the train speed from above and the water time
  only because binary32 addition absorbs the increment at \<open>2 ^ 22\<close> and \<open>2 ^ 19\<close>.
\<close>

definition in_bounds :: "anim \<Rightarrow> bool" where
  "in_bounds s \<longleftrightarrow>
     f32_le (Finite (- 760)) (trainPos s) \<and> f32_le (trainPos s) (Finite 1160) \<and>
     f32_le (lit 0.2) (trainSpeed s) \<and> f32_le (trainSpeed s) (Finite 4194304) \<and>
     f32_le (Finite (- 150)) (boatPos s) \<and> f32_le (boatPos s) (Finite 920) \<and>
     boatSpeed s = lit 1.2 \<and>
     f32_le (Finite 0) (waterTime s) \<and> f32_le (waterTime s) (Finite 524288) \<and>
     f32_le (Finite 0) (trafficTimer s) \<and> f32_lt (trafficTimer s) (Finite 100000)"


section \<open>Properties of the arithmetic\<close>

declare ilog2.simps [simp del]

lemma ilog2_bounds: "0 < n \<Longrightarrow> 2 ^ ilog2 n \<le> n \<and> n < 2 * 2 ^ ilog2 n"
proof (induction n rule: ilog2.induct)
  case (1 n)
  show ?case
  proof (cases "n < 2")
    case True
    with 1(2) have "n = 1" by simp
    then show ?thesis by (simp add: ilog2.simps)
  next
    case False
    then have pos: "0 < n div 2" by simp
    have ih: "2 ^ ilog2 (n div 2) \<le> n div 2 \<and> n div 2 < 2 * 2 ^ ilog2 (n div 2)"
      using 1(1) [OF False pos] .
    have eq: "ilog2 n = Suc (ilog2 (n div 2))"
      using False by (subst ilog2.simps) simp
    from ih show ?thesis unfolding eq by auto
  qed
qed

lemma pow2_powi: "pow2 e = 2 powi e"
  by (simp add: pow2_def power_int_def inverse_eq_divide power_one_over)

lemma pow2_pos [simp]: "0 < pow2 e"
  by (simp add: pow2_powi)

lemma pow2_nonneg [simp]: "0 \<le> pow2 e"
  by (rule less_imp_le) (rule pow2_pos)

lemma pow2_nz [simp]: "pow2 e \<noteq> 0"
  by (metis less_irrefl pow2_pos)

lemma pow2_not_le0 [simp]: "\<not> pow2 e \<le> 0"
  using pow2_pos [of e] by (simp only: not_le)

lemma ilog2_real_bounds:
  assumes "0 < n"
  shows "(2::real) ^ ilog2 n \<le> real n" and "real n + 1 \<le> 2 * 2 ^ ilog2 n"
proof -
  from ilog2_bounds [OF assms]
  have a: "2 ^ ilog2 n \<le> n" and b: "Suc n \<le> 2 * 2 ^ ilog2 n" by simp_all
  from a have "real (2 ^ ilog2 n) \<le> real n" by (simp only: of_nat_le_iff)
  then show "(2::real) ^ ilog2 n \<le> real n" by simp
  from b have "real (Suc n) \<le> real (2 * 2 ^ ilog2 n)" by (simp only: of_nat_le_iff)
  then show "real n + 1 \<le> 2 * 2 ^ ilog2 n" by simp
qed

lemma pow2_0 [simp]: "pow2 0 = 1" and pow2_1 [simp]: "pow2 1 = 2"
  by (simp_all add: pow2_def)

lemma pow2_add: "pow2 (a + b) = pow2 a * pow2 b"
  by (simp add: pow2_powi power_int_add)

lemma pow2_nat: "pow2 (int n) = 2 ^ n"
  by (simp add: pow2_powi)

lemma pow2_neg_nat: "pow2 (- int n) = 1 / 2 ^ n"
  by (simp add: pow2_powi power_int_minus_divide)

lemma pow2_mono: "a \<le> b \<Longrightarrow> pow2 a \<le> pow2 b"
  by (simp add: pow2_powi power_int_increasing)

lemma pow2_strict_mono: "a < b \<Longrightarrow> pow2 a < pow2 b"
  by (simp add: pow2_powi power_int_strict_increasing)

lemma pow2_less_cancel: "pow2 a < pow2 b \<Longrightarrow> a < b"
  using pow2_mono [of b a] by (cases "a < b") auto

lemma expo_bounds:
  assumes "x \<noteq> 0"
  shows "pow2 (expo x) \<le> \<bar>x\<bar>" and "\<bar>x\<bar> < pow2 (expo x + 1)"
proof -
  have "pow2 (expo x) \<le> \<bar>x\<bar> \<and> \<bar>x\<bar> < pow2 (expo x + 1)"
  proof (cases "1 \<le> \<bar>x\<bar>")
    case True
    define n where "n = nat \<lfloor>\<bar>x\<bar>\<rfloor>"
    have n1: "0 < n" using True by (simp add: n_def)
    have lo: "real n \<le> \<bar>x\<bar>" and hi: "\<bar>x\<bar> < real n + 1"
      using True by (simp_all add: n_def)
    have e: "expo x = int (ilog2 n)" using True by (simp add: expo_def n_def)
    have a: "2 ^ ilog2 n \<le> \<bar>x\<bar>"
      using ilog2_real_bounds(1) [OF n1] lo by linarith
    have b: "\<bar>x\<bar> < 2 * 2 ^ ilog2 n"
      using ilog2_real_bounds(2) [OF n1] hi by linarith
    from a b show ?thesis
      unfolding e by (simp add: pow2_nat pow2_add)
  next
    case False
    define y where "y = 1 / \<bar>x\<bar>"
    have y1: "1 < y" using False assms by (simp add: y_def)
    define n where "n = nat (\<lceil>y\<rceil> - 1)"
    have cy: "2 \<le> \<lceil>y\<rceil>" using y1 by (simp add: le_ceiling_iff)
    have n1: "0 < n" using cy by (simp add: n_def)
    have rn: "real n = of_int \<lceil>y\<rceil> - 1" using cy by (simp add: n_def)
    have lo: "real n < y" and hi: "y \<le> real n + 1"
      using ceiling_correct [of y] unfolding rn by simp_all
    have e: "expo x = - int (Suc (ilog2 n))"
      using False by (simp add: expo_def n_def y_def)
    note b1 = ilog2_real_bounds(1) [OF n1] and b2 = ilog2_real_bounds(2) [OF n1]
    have x: "\<bar>x\<bar> = 1 / y" using assms by (simp add: y_def)
    have ypos: "0 < y" using y1 by simp
    have c: "y \<le> 2 * 2 ^ ilog2 n" using hi b2 by linarith
    have d: "2 ^ ilog2 n < y" using lo b1 by linarith
    have "1 / (2 ^ Suc (ilog2 n)) \<le> 1 / y"
      using c ypos by (simp add: field_simps)
    moreover have "1 / y < 1 / 2 ^ ilog2 n"
      using d ypos by (simp add: field_simps)
    moreover have "expo x + 1 = - int (ilog2 n)" using e by simp
    ultimately show ?thesis
      unfolding x by (simp only: e pow2_neg_nat) 
  qed
  then show "pow2 (expo x) \<le> \<bar>x\<bar>" and "\<bar>x\<bar> < pow2 (expo x + 1)" by simp_all
qed

lemma expo_unique:
  assumes "pow2 k \<le> \<bar>x\<bar>" and "\<bar>x\<bar> < pow2 (k + 1)"
  shows "expo x = k"
proof -
  have nz: "x \<noteq> 0" using assms(1) pow2_pos [of k] by auto
  have "pow2 (expo x) < pow2 (k + 1)"
    using expo_bounds(1) [OF nz] assms(2) by linarith
  then have a: "expo x < k + 1" by (rule pow2_less_cancel)
  have "pow2 k < pow2 (expo x + 1)"
    using expo_bounds(2) [OF nz] assms(1) by linarith
  then have b: "k < expo x + 1" by (rule pow2_less_cancel)
  from a b show ?thesis by simp
qed

lemma rne_err: "\<bar>of_int (rne q) - q\<bar> \<le> 1 / 2"
  unfolding rne_def Let_def by (auto; linarith)

lemma rne_int [simp]: "rne (of_int k) = k"
  by (simp add: rne_def)

lemma rne_le: "q \<le> of_int n \<Longrightarrow> rne q \<le> n"
  unfolding rne_def Let_def
  by (auto simp: floor_le_iff; linarith)

lemma rne_ge: "of_int n \<le> q \<Longrightarrow> n \<le> rne q"
  unfolding rne_def Let_def
  by (auto simp: le_floor_iff; linarith)

lemma rne_near: "\<bar>q - of_int k\<bar> < 1 / 2 \<Longrightarrow> rne q = k"
  using rne_err [of q] by linarith

lemma qexp_ge: "- 149 \<le> qexp x"
  by (simp add: qexp_def)

lemma qexp_binade:
  assumes "pow2 (e + 23) \<le> \<bar>x\<bar>" and "\<bar>x\<bar> < pow2 (e + 24)" and "- 149 \<le> e"
  shows "qexp x = e"
proof -
  have "expo x = e + 23"
    using assms(1,2) by (intro expo_unique) (simp_all add: add.commute add.left_commute)
  with assms(3) show ?thesis by (simp add: qexp_def)
qed

lemma qexp_le:
  assumes "x \<noteq> 0" and "\<bar>x\<bar> < pow2 k"
  shows "qexp x \<le> max (k - 24) (- 149)"
proof -
  have "pow2 (expo x) < pow2 k"
    using expo_bounds(1) [OF assms(1)] assms(2) by linarith
  then have "expo x < k" by (rule pow2_less_cancel)
  then show ?thesis by (simp add: qexp_def)
qed

lemma qexp_le':
  assumes "x \<noteq> 0" and "\<bar>x\<bar> \<le> pow2 k"
  shows "qexp x \<le> max (k - 23) (- 149)"
proof -
  have "\<bar>x\<bar> < pow2 (k + 1)"
    using assms(2) pow2_strict_mono [of k "k + 1"] by linarith
  from qexp_le [OF assms(1) this] show ?thesis by simp
qed

lemma round_val_0 [simp]: "round_val 0 = 0"
  by (simp add: round_val_def)

lemma round_val_nz:
  "x \<noteq> 0 \<Longrightarrow> round_val x = of_int (rne (x / pow2 (qexp x))) * pow2 (qexp x)"
  by (simp add: round_val_def Let_def)

lemma round_val_err:
  assumes "x \<noteq> 0"
  shows "\<bar>round_val x - x\<bar> \<le> pow2 (qexp x) / 2"
proof -
  define e where "e = qexp x"
  have p: "0 < pow2 e" by simp
  have "round_val x - x = (of_int (rne (x / pow2 e)) - x / pow2 e) * pow2 e"
    using assms p by (simp add: round_val_nz e_def field_simps)
  then have "\<bar>round_val x - x\<bar> = \<bar>of_int (rne (x / pow2 e)) - x / pow2 e\<bar> * pow2 e"
    using p by (simp add: abs_mult)
  also have "\<dots> \<le> (1 / 2) * pow2 e"
    using rne_err [of "x / pow2 e"] p by (intro mult_right_mono) simp_all
  finally show ?thesis by (simp add: e_def)
qed

lemma pow2_diff_nat: "e \<le> j \<Longrightarrow> pow2 j = 2 ^ nat (j - e) * pow2 e"
proof -
  assume "e \<le> j"
  then have "j = int (nat (j - e)) + e" by simp
  then have "pow2 j = pow2 (int (nat (j - e)) + e)" by simp
  also have "\<dots> = 2 ^ nat (j - e) * pow2 e" by (simp only: pow2_add pow2_nat)
  finally show ?thesis .
qed

lemma round_val_upper:
  assumes "x \<le> of_int m * pow2 j" and "qexp x \<le> j"
  shows "round_val x \<le> of_int m * pow2 j"
proof (cases "x = 0")
  case True
  with assms(1) show ?thesis by simp
next
  case False
  define e where "e = qexp x"
  have p: "0 < pow2 e" by simp
  have B: "of_int m * pow2 j = of_int (m * 2 ^ nat (j - e)) * pow2 e"
    using pow2_diff_nat [of e j] assms(2) by (simp add: e_def)
  have "x / pow2 e \<le> of_int (m * 2 ^ nat (j - e))"
    using assms(1) p unfolding B by (simp add: field_simps)
  then have "rne (x / pow2 e) \<le> m * 2 ^ nat (j - e)" by (rule rne_le)
  then have "of_int (rne (x / pow2 e)) * pow2 e \<le> of_int (m * 2 ^ nat (j - e)) * pow2 e"
    by (intro mult_right_mono) (simp_all only: of_int_le_iff pow2_nonneg)
  then show ?thesis
    unfolding B using False by (simp add: round_val_nz e_def)
qed

lemma round_val_lower:
  assumes "of_int m * pow2 j \<le> x" and "qexp x \<le> j"
  shows "of_int m * pow2 j \<le> round_val x"
proof (cases "x = 0")
  case True
  with assms(1) show ?thesis by simp
next
  case False
  define e where "e = qexp x"
  have p: "0 < pow2 e" by simp
  have B: "of_int m * pow2 j = of_int (m * 2 ^ nat (j - e)) * pow2 e"
    using pow2_diff_nat [of e j] assms(2) by (simp add: e_def)
  have "of_int (m * 2 ^ nat (j - e)) \<le> x / pow2 e"
    using assms(1) p unfolding B by (simp add: field_simps)
  then have "m * 2 ^ nat (j - e) \<le> rne (x / pow2 e)" by (rule rne_ge)
  then have "of_int (m * 2 ^ nat (j - e)) * pow2 e \<le> of_int (rne (x / pow2 e)) * pow2 e"
    by (intro mult_right_mono) (simp_all only: of_int_le_iff pow2_nonneg)
  then show ?thesis
    unfolding B using False by (simp add: round_val_nz e_def)
qed

lemma round_val_abs_le:
  assumes "\<bar>x\<bar> \<le> pow2 k" and "- 149 \<le> k"
  shows "\<bar>round_val x\<bar> \<le> pow2 k"
proof (cases "x = 0")
  case True
  then show ?thesis using pow2_pos [of k] by simp
next
  case False
  have q: "qexp x \<le> k"
    using qexp_le' [OF False assms(1)] assms(2) by simp
  have "round_val x \<le> of_int 1 * pow2 k"
    using assms(1) q by (intro round_val_upper) simp_all
  moreover have "of_int (- 1) * pow2 k \<le> round_val x"
    using assms(1) q by (intro round_val_lower) simp_all
  ultimately show ?thesis by simp
qed

lemma f32_round_finite:
  assumes "\<bar>x\<bar> \<le> pow2 127"
  shows "f32_round x = Finite (round_val x)"
proof -
  have "\<bar>round_val x\<bar> \<le> pow2 127"
    using assms by (rule round_val_abs_le) simp
  moreover have "pow2 127 < 2 ^ 128" by (simp add: pow2_def)
  ultimately show ?thesis by (simp add: f32_round_def Let_def)
qed

lemma f32_round_binade:
  assumes "pow2 (e + 23) \<le> \<bar>x\<bar>" and "\<bar>x\<bar> < pow2 (e + 24)" and "- 149 \<le> e" and "e \<le> 103"
  shows "f32_round x = Finite (of_int (rne (x / pow2 e)) * pow2 e)"
proof -
  have nz: "x \<noteq> 0" using assms(1) pow2_pos [of "e + 23"] by auto
  have q: "qexp x = e" using assms(1-3) by (rule qexp_binade)
  have "pow2 (e + 24) \<le> pow2 127" using assms(4) by (intro pow2_mono) simp
  with assms(2) have "\<bar>x\<bar> \<le> pow2 127" by linarith
  from f32_round_finite [OF this] show ?thesis by (simp add: round_val_nz [OF nz] q)
qed


section \<open>Literals and the effect of one tick\<close>

lemmas f32_eval = f32_round_def round_val_def qexp_def expo_def rne_def pow2_def Let_def
  ilog2.simps

lemma lit_values:
  "lit 2.8 = Finite (11744051 / 4194304)"
  "lit 1.2 = Finite (5033165 / 4194304)"
  "lit 0.016 = Finite (8589935 / 536870912)"
  "lit 0.2 = Finite (13421773 / 67108864)"
  "lit 0 = Finite 0"
  "lit (- 520) = Finite (- 520)"
  "lit (- 120) = Finite (- 120)"
  "lit (- 760) = Finite (- 760)"
  "lit (- 150) = Finite (- 150)"
  "lit 100000 = Finite 100000"
  "lit 800 = Finite 800"
  "lit 360 = Finite 360"
  "lit 120 = Finite 120"
  "lit 6 = Finite 6"
  "lit 2.5 = Finite (5 / 2)"
  "lit 5 = Finite 5"
  "lit 3 = Finite 3"
  "lit 170 = Finite 170"
  "lit 12 = Finite 12"
  "lit 22 = Finite 22"
  "lit 180 = Finite 180"
  "lit 420 = Finite 420"
  "lit 660 = Finite 660"
  by (simp_all add: lit_def f32_eval)

lemma f32_add_eval: "a + b = x \<Longrightarrow> f32_round x = r \<Longrightarrow> f32_add (Finite a) (Finite b) = r"
  by simp

lemma limits:
  "f32_add (Finite 800) (Finite 360) = Finite 1160"
  "f32_add (Finite 800) (Finite 120) = Finite 920"
  by (simp_all add: f32_eval)

lemmas update_defs = update_def update_train_def update_boat_def update_traffic_def

lemma initial_eq:
  "initial = \<lparr> boatPos = Finite (- 120), boatSpeed = Finite (5033165 / 4194304),
               waterTime = Finite 0, trainPos = Finite (- 520),
               trainSpeed = Finite (11744051 / 4194304), paused = False,
               trafficTimer = Finite 0 \<rparr>"
  by (simp only: initial_def lit_values)

lemma update_paused:
  "paused s \<Longrightarrow> update s = s\<lparr>waterTime := f32_add (waterTime s) (lit 0.016)\<rparr>"
  by (simp add: update_def)

lemma update_frame [simp]:
  "trainSpeed (update s) = trainSpeed s"
  "boatSpeed (update s) = boatSpeed s"
  "paused (update s) = paused s"
  "waterTime (update s) = f32_add (waterTime s) (lit 0.016)"
  by (simp_all add: update_def update_train_def update_boat_def update_traffic_def Let_def)

lemma update_trainPos:
  "\<not> paused s \<Longrightarrow> trainPos (update s) =
     (if f32_lt (Finite 1160) (f32_add (trainPos s) (trainSpeed s)) then Finite (- 760)
      else f32_add (trainPos s) (trainSpeed s))"
  unfolding update_defs V_WIDTH_def lit_values limits by (simp add: Let_def)

lemma update_boatPos:
  "\<not> paused s \<Longrightarrow> boatPos (update s) =
     (if f32_lt (Finite 920) (f32_add (boatPos s) (boatSpeed s)) then Finite (- 150)
      else f32_add (boatPos s) (boatSpeed s))"
  unfolding update_defs V_WIDTH_def lit_values limits by (simp add: Let_def)

lemma update_trafficTimer:
  "\<not> paused s \<Longrightarrow> trafficTimer (update s) =
     (let t = f32_add (trafficTimer s) (Finite (8589935 / 536870912))
      in if f32_le (Finite 100000) t then f32_fmod t (Finite 100000) else t)"
  unfolding update_defs V_WIDTH_def lit_values limits by (simp add: Let_def)


section \<open>Bounds kept by every run\<close>

lemma f32_add_finite:
  assumes "\<bar>a + b\<bar> \<le> pow2 127"
  shows "f32_add (Finite a) (Finite b) = Finite (round_val (a + b))"
  using f32_round_finite [OF assms] by simp

lemma pow2_numeral_vals:
  "pow2 127 = 2 ^ 127" "pow2 23 = 8388608" "pow2 22 = 4194304" "pow2 20 = 1048576"
  "pow2 19 = 524288" "pow2 17 = 131072" "pow2 11 = 2048" "pow2 3 = 8"
  "pow2 (- 4) = 1 / 16" "pow2 (- 1) = 1 / 2" "pow2 (- 2) = 1 / 4"
  by (simp_all add: pow2_def)

lemma small_le_pow2_127: "\<bar>x\<bar> \<le> 8388608 \<Longrightarrow> \<bar>x\<bar> \<le> pow2 127"
proof -
  assume a: "\<bar>x\<bar> \<le> 8388608"
  have "pow2 23 \<le> pow2 127" by (rule pow2_mono) simp
  with a show ?thesis by (simp add: pow2_numeral_vals(2))
qed

lemma qexp_small:
  assumes "\<bar>x\<bar> < 8388608" and "x \<noteq> 0"
  shows "qexp x \<le> - 1"
  using qexp_le [of x 23] assms by (simp add: pow2_numeral_vals)

text \<open>Water time: the increment is absorbed at \<open>2 ^ 19\<close>.\<close>

lemma water_step:
  assumes "0 \<le> w" and "w \<le> 524288"
  shows "\<exists>w'. f32_add (Finite w) (Finite (8589935 / 536870912)) = Finite w'
              \<and> 0 \<le> w' \<and> w' \<le> 524288"
proof -
  define x where "x = w + 8589935 / 536870912"
  have xpos: "0 < x" and xle: "x \<le> 524288 + 8589935 / 536870912"
    using assms by (simp_all add: x_def)
  have small: "\<bar>x\<bar> < 8388608" using xpos xle by simp
  have fin: "f32_add (Finite w) (Finite (8589935 / 536870912)) = Finite (round_val x)"
    unfolding x_def by (rule f32_add_finite, rule small_le_pow2_127)
      (use small in \<open>simp add: x_def\<close>)
  have q: "qexp x \<le> - 1" using small xpos by (intro qexp_small) simp_all
  have lo: "0 \<le> round_val x"
    using round_val_lower [of 0 0 x] xpos q by simp
  have hi: "round_val x \<le> 524288"
  proof (cases "x \<le> 524288")
    case True
    then show ?thesis
      using round_val_upper [of x 1 19] q by (simp add: pow2_numeral_vals)
  next
    case False
    have b: "pow2 (- 4 + 23) \<le> \<bar>x\<bar>" "\<bar>x\<bar> < pow2 (- 4 + 24)"
      using False xle by (simp_all add: pow2_numeral_vals)
    have "f32_round x = Finite (of_int (rne (x / pow2 (- 4))) * pow2 (- 4))"
      using b by (rule f32_round_binade) simp_all
    moreover have "rne (x / pow2 (- 4)) = 8388608"
      using False xle by (intro rne_near) (simp add: pow2_numeral_vals)
    moreover have "f32_round x = Finite (round_val x)"
      using fin by (simp add: x_def)
    ultimately show ?thesis by (simp add: pow2_numeral_vals)
  qed
  from fin lo hi show ?thesis by blast
qed

text \<open>Train speed: \<^verbatim>\<open>'+'\<close> is absorbed at \<open>2 ^ 22\<close>, \<^verbatim>\<open>'-'\<close> is clamped at \<open>0.2f\<close>.\<close>

lemma speed_plus_step:
  assumes "13421773 / 67108864 \<le> v" and "v \<le> 4194304"
  shows "\<exists>v'. f32_add (Finite v) (Finite (13421773 / 67108864)) = Finite v'
              \<and> 13421773 / 67108864 \<le> v' \<and> v' \<le> 4194304"
proof -
  define x where "x = v + 13421773 / 67108864"
  have xlo: "2 * (13421773 / 67108864) \<le> x" and xle: "x \<le> 4194304 + 13421773 / 67108864"
    using assms by (simp_all add: x_def)
  have xpos: "0 < x" using xlo by simp
  have small: "\<bar>x\<bar> < 8388608" using xpos xle by simp
  have fin: "f32_add (Finite v) (Finite (13421773 / 67108864)) = Finite (round_val x)"
    unfolding x_def by (rule f32_add_finite, rule small_le_pow2_127)
      (use small in \<open>simp add: x_def\<close>)
  have q: "qexp x \<le> - 1" using small xpos by (intro qexp_small) simp_all
  have lo: "1 / 4 \<le> round_val x"
  proof (cases "x < 4194304")
    case True
    have "qexp x \<le> max (22 - 24) (- 149)"
      using True xpos by (intro qexp_le) (simp_all add: pow2_numeral_vals)
    then have "qexp x \<le> - 2" by simp
    then show ?thesis
      using round_val_lower [of 1 "- 2" x] xlo by (simp add: pow2_numeral_vals)
  next
    case False
    then have "4194304 \<le> round_val x"
      using round_val_lower [of 1 22 x] q by (simp add: pow2_numeral_vals)
    then show ?thesis by simp
  qed
  have hi: "round_val x \<le> 4194304"
  proof (cases "x \<le> 4194304")
    case True
    then show ?thesis
      using round_val_upper [of x 1 22] q by (simp add: pow2_numeral_vals)
  next
    case False
    have b: "pow2 (- 1 + 23) \<le> \<bar>x\<bar>" "\<bar>x\<bar> < pow2 (- 1 + 24)"
      using False xle by (simp_all add: pow2_numeral_vals)
    have "f32_round x = Finite (of_int (rne (x / pow2 (- 1))) * pow2 (- 1))"
      using b by (rule f32_round_binade) simp_all
    moreover have "rne (x / pow2 (- 1)) = 8388608"
      using False xle by (intro rne_near) (simp add: pow2_numeral_vals)
    moreover have "f32_round x = Finite (round_val x)"
      using fin by (simp add: x_def)
    ultimately show ?thesis by (simp add: pow2_numeral_vals)
  qed
  from fin lo hi show ?thesis by force
qed

lemma f32_max_floor:
  "f32_max (Finite c) y = Finite c \<or> (f32_max (Finite c) y = y \<and> f32_lt (Finite c) y)"
  by (simp add: f32_max_def)

lemma speed_minus_step:
  assumes "v \<le> 4194304" and "- 4194304 \<le> v"
  shows "\<exists>v'. f32_max (Finite (13421773 / 67108864))
                 (f32_sub (Finite v) (Finite (13421773 / 67108864))) = Finite v'
              \<and> 13421773 / 67108864 \<le> v' \<and> v' \<le> 4194304"
proof -
  define x where "x = v + - (13421773 / 67108864)"
  have small: "\<bar>x\<bar> < 8388608" using assms by (simp add: x_def)
  have fin: "f32_sub (Finite v) (Finite (13421773 / 67108864)) = Finite (round_val x)"
    unfolding x_def f32_sub_def f32_neg.simps
    by (rule f32_add_finite, rule small_le_pow2_127) (use small in \<open>simp add: x_def\<close>)
  have hi: "round_val x \<le> 4194304"
  proof (cases "x = 0")
    case True
    then show ?thesis by simp
  next
    case False
    have q: "qexp x \<le> - 1" using small False by (rule qexp_small)
    show ?thesis
      using round_val_upper [of x 1 22] q assms(1) by (simp add: pow2_numeral_vals x_def)
  qed
  show ?thesis
  proof (cases "13421773 / 67108864 < round_val x")
    case True
    then have "f32_max (Finite (13421773 / 67108864)) (Finite (round_val x))
               = Finite (round_val x)"
      by (simp add: f32_max_def)
    with True hi show ?thesis
      unfolding fin by (intro exI [of _ "round_val x"]) simp
  next
    case False
    then have "f32_max (Finite (13421773 / 67108864)) (Finite (round_val x))
               = Finite (13421773 / 67108864)"
      by (simp add: f32_max_def)
    then show ?thesis
      unfolding fin by (intro exI [of _ "13421773 / 67108864"]) simp
  qed
qed

text \<open>Positions: the lower ends are whole multiples of a power of two.\<close>

lemma position_step:
  assumes "of_int m * pow2 j \<le> p" and "p \<le> 1160" and "0 \<le> v" and "v \<le> 4194304"
    and "- 8388608 < of_int m * pow2 j" and "- 1 \<le> j"
  shows "\<exists>p'. f32_add (Finite p) (Finite v) = Finite p' \<and> of_int m * pow2 j \<le> p'"
proof -
  define x where "x = p + v"
  have small: "\<bar>x\<bar> < 8388608" using assms by (simp add: x_def)
  have fin: "f32_add (Finite p) (Finite v) = Finite (round_val x)"
    unfolding x_def by (rule f32_add_finite, rule small_le_pow2_127)
      (use small in \<open>simp add: x_def\<close>)
  have lo: "of_int m * pow2 j \<le> round_val x"
  proof (cases "x = 0")
    case True
    then show ?thesis using assms(1,3) by (simp add: x_def)
  next
    case False
    have q: "qexp x \<le> - 1" using small False by (rule qexp_small)
    show ?thesis
      by (rule round_val_lower) (use q assms(1,3,6) in \<open>simp_all add: x_def\<close>)
  qed
  from fin lo show ?thesis by blast
qed

lemma trunc_nonneg: "0 \<le> r \<Longrightarrow> trunc r = \<lfloor>r\<rfloor>"
  by (simp add: trunc_def)

lemma fmod_range:
  assumes "0 \<le> a" and "0 < b"
  shows "0 \<le> a - b * of_int (trunc (a / b))" and "a - b * of_int (trunc (a / b)) < b"
proof -
  have t: "trunc (a / b) = \<lfloor>a / b\<rfloor>" using assms by (simp add: trunc_nonneg)
  have "b * of_int \<lfloor>a / b\<rfloor> \<le> b * (a / b)"
    using assms(2) by (intro mult_left_mono) simp_all
  then have "b * of_int \<lfloor>a / b\<rfloor> \<le> a" using assms(2) by simp
  then show "0 \<le> a - b * of_int (trunc (a / b))" by (simp add: t)
  have "a / b < of_int \<lfloor>a / b\<rfloor> + 1" by linarith
  then have "b * (a / b) < b * (of_int \<lfloor>a / b\<rfloor> + 1)"
    using assms(2) by (intro mult_strict_left_mono) simp_all
  then have "a < b * (of_int \<lfloor>a / b\<rfloor> + 1)" using assms(2) by simp
  then show "a - b * of_int (trunc (a / b)) < b" by (simp add: t algebra_simps)
qed

lemma traffic_step:
  assumes "0 \<le> t" and "t < 100000"
  shows "\<exists>t'. (let u = f32_add (Finite t) (Finite (8589935 / 536870912))
               in if f32_le (Finite 100000) u then f32_fmod u (Finite 100000) else u) = Finite t'
              \<and> 0 \<le> t' \<and> t' < 100000"
proof -
  define x where "x = t + 8589935 / 536870912"
  have xpos: "0 < x" using assms by (simp add: x_def)
  have small: "\<bar>x\<bar> < 8388608" using assms by (simp add: x_def)
  have fin: "f32_add (Finite t) (Finite (8589935 / 536870912)) = Finite (round_val x)"
    unfolding x_def by (rule f32_add_finite, rule small_le_pow2_127)
      (use small in \<open>simp add: x_def\<close>)
  have q: "qexp x \<le> - 1" using small xpos by (intro qexp_small) simp_all
  have lo: "0 \<le> round_val x"
    using round_val_lower [of 0 0 x] xpos q by simp
  show ?thesis
    unfolding fin Let_def
    using lo fmod_range [of "round_val x" 100000] by (cases "100000 \<le> round_val x") simp_all
qed

lemma f32_between:
  "f32_le (Finite a) x \<and> f32_le x (Finite b) \<longleftrightarrow> (\<exists>r. x = Finite r \<and> a \<le> r \<and> r \<le> b)"
  by (cases x) auto

lemma f32_between_strict:
  "f32_le (Finite a) x \<and> f32_lt x (Finite b) \<longleftrightarrow> (\<exists>r. x = Finite r \<and> a \<le> r \<and> r < b)"
  by (cases x) auto

lemma in_bounds_iff:
  "in_bounds s \<longleftrightarrow>
     (\<exists>tp ts bp wt tt.
        trainPos s = Finite tp \<and> - 760 \<le> tp \<and> tp \<le> 1160 \<and>
        trainSpeed s = Finite ts \<and> 13421773 / 67108864 \<le> ts \<and> ts \<le> 4194304 \<and>
        boatPos s = Finite bp \<and> - 150 \<le> bp \<and> bp \<le> 920 \<and>
        boatSpeed s = Finite (5033165 / 4194304) \<and>
        waterTime s = Finite wt \<and> 0 \<le> wt \<and> wt \<le> 524288 \<and>
        trafficTimer s = Finite tt \<and> 0 \<le> tt \<and> tt < 100000)"
proof -
  have "in_bounds s \<longleftrightarrow>
     (f32_le (Finite (- 760)) (trainPos s) \<and> f32_le (trainPos s) (Finite 1160)) \<and>
     (f32_le (Finite (13421773 / 67108864)) (trainSpeed s) \<and> f32_le (trainSpeed s) (Finite 4194304)) \<and>
     (f32_le (Finite (- 150)) (boatPos s) \<and> f32_le (boatPos s) (Finite 920)) \<and>
     boatSpeed s = Finite (5033165 / 4194304) \<and>
     (f32_le (Finite 0) (waterTime s) \<and> f32_le (waterTime s) (Finite 524288)) \<and>
     (f32_le (Finite 0) (trafficTimer s) \<and> f32_lt (trafficTimer s) (Finite 100000))"
    unfolding in_bounds_def lit_values by (simp only: conj_assoc)
  also have "\<dots> \<longleftrightarrow> (\<exists>tp ts bp wt tt.
        trainPos s = Finite tp \<and> - 760 \<le> tp \<and> tp \<le> 1160 \<and>
        trainSpeed s = Finite ts \<and> 13421773 / 67108864 \<le> ts \<and> ts \<le> 4194304 \<and>
        boatPos s = Finite bp \<and> - 150 \<le> bp \<and> bp \<le> 920 \<and>
        boatSpeed s = Finite (5033165 / 4194304) \<and>
        waterTime s = Finite wt \<and> 0 \<le> wt \<and> wt \<le> 524288 \<and>
        trafficTimer s = Finite tt \<and> 0 \<le> tt \<and> tt < 100000)"
    unfolding f32_between f32_between_strict by blast
  finally show ?thesis .
qed

lemma in_bounds_values:
  assumes "trainPos s = Finite tp" "- 760 \<le> tp" "tp \<le> 1160"
    "trainSpeed s = Finite ts" "13421773 / 67108864 \<le> ts" "ts \<le> 4194304"
    "boatPos s = Finite bp" "- 150 \<le> bp" "bp \<le> 920"
    "boatSpeed s = Finite (5033165 / 4194304)"
    "waterTime s = Finite wt" "0 \<le> wt" "wt \<le> 524288"
    "trafficTimer s = Finite tt" "0 \<le> tt" "tt < 100000"
  shows "in_bounds s"
  unfolding in_bounds_iff using assms by blast

lemma in_bounds_initial: "in_bounds initial"
  by (rule in_bounds_values [where tp = "- 520" and bp = "- 120" and wt = 0 and tt = 0
        and ts = "11744051 / 4194304"]) (simp_all add: initial_eq)

lemma in_bounds_update:
  assumes "in_bounds s"
  shows "in_bounds (update s)"
proof -
  from assms obtain tp ts bp wt tt where
    tp: "trainPos s = Finite tp" "- 760 \<le> tp" "tp \<le> 1160" and
    ts: "trainSpeed s = Finite ts" "13421773 / 67108864 \<le> ts" "ts \<le> 4194304" and
    bp: "boatPos s = Finite bp" "- 150 \<le> bp" "bp \<le> 920" and
    bs: "boatSpeed s = Finite (5033165 / 4194304)" and
    wt: "waterTime s = Finite wt" "0 \<le> wt" "wt \<le> 524288" and
    tt: "trafficTimer s = Finite tt" "0 \<le> tt" "tt < 100000"
    unfolding in_bounds_iff by blast
  obtain wt' where wt': "f32_add (Finite wt) (Finite (8589935 / 536870912)) = Finite wt'"
      "0 \<le> wt'" "wt' \<le> 524288"
    using water_step [OF wt(2,3)] by blast
  have W: "waterTime (update s) = Finite wt'"
    unfolding update_frame lit_values wt(1) by (rule wt'(1))
  show ?thesis
  proof (cases "paused s")
    case True
    have "trainPos (update s) = trainPos s" "boatPos (update s) = boatPos s"
      "trafficTimer (update s) = trafficTimer s"
      using True by (simp_all add: update_paused)
    then show ?thesis
      using tp ts bp bs tt W wt'(2,3)
      by (intro in_bounds_values [where tp = tp and ts = ts and bp = bp and wt = wt' and tt = tt])
        simp_all
  next
    case False
    obtain tp1 where tp1: "f32_add (Finite tp) (Finite ts) = Finite tp1" "- 760 \<le> tp1"
      using position_step [of "- 95" 3 tp ts] tp(2,3) ts(2,3)
      by (auto simp: pow2_numeral_vals)
    obtain bp1 where bp1: "f32_add (Finite bp) (Finite (5033165 / 4194304)) = Finite bp1"
        "- 150 \<le> bp1"
      using position_step [of "- 75" 1 bp "5033165 / 4194304"] bp(2,3)
      by (auto simp: pow2_def)
    obtain tt' where tt': "(let u = f32_add (Finite tt) (Finite (8589935 / 536870912))
               in if f32_le (Finite 100000) u then f32_fmod u (Finite 100000) else u) = Finite tt'"
        "0 \<le> tt'" "tt' < 100000"
      using traffic_step [OF tt(2,3)] by blast
    have T: "trainPos (update s) = Finite (if 1160 < tp1 then - 760 else tp1)"
      unfolding update_trainPos [OF False] tp(1) ts(1) tp1(1) by simp
    have B: "boatPos (update s) = Finite (if 920 < bp1 then - 150 else bp1)"
      unfolding update_boatPos [OF False] bp(1) bs bp1(1) by simp
    have TT: "trafficTimer (update s) = Finite tt'"
      unfolding update_trafficTimer [OF False] tt(1) by (rule tt'(1))
    show ?thesis
      using T B TT W ts bs tp1(2) bp1(2) tt'(2,3) wt'(2,3)
      by (intro in_bounds_values [where tp = "if 1160 < tp1 then - 760 else tp1" and ts = ts
            and bp = "if 920 < bp1 then - 150 else bp1" and wt = wt' and tt = tt'])
        simp_all
  qed
qed

lemma in_bounds_keyboard:
  assumes "in_bounds s" and "keyboard k s = Some s'"
  shows "in_bounds s'"
proof -
  from assms(1) obtain tp ts bp wt tt where
    tp: "trainPos s = Finite tp" "- 760 \<le> tp" "tp \<le> 1160" and
    ts: "trainSpeed s = Finite ts" "13421773 / 67108864 \<le> ts" "ts \<le> 4194304" and
    bp: "boatPos s = Finite bp" "- 150 \<le> bp" "bp \<le> 920" and
    bs: "boatSpeed s = Finite (5033165 / 4194304)" and
    wt: "waterTime s = Finite wt" "0 \<le> wt" "wt \<le> 524288" and
    tt: "trafficTimer s = Finite tt" "0 \<le> tt" "tt < 100000"
    unfolding in_bounds_iff by blast
  obtain v1 where v1: "f32_add (Finite ts) (Finite (13421773 / 67108864)) = Finite v1"
      "13421773 / 67108864 \<le> v1" "v1 \<le> 4194304"
    using speed_plus_step [OF ts(2,3)] by blast
  obtain v2 where v2: "f32_max (Finite (13421773 / 67108864))
                 (f32_sub (Finite ts) (Finite (13421773 / 67108864))) = Finite v2"
      "13421773 / 67108864 \<le> v2" "v2 \<le> 4194304"
    using speed_minus_step [of ts] ts(2,3) by auto
  consider "s' = s\<lparr>paused := \<not> paused s\<rparr>"
    | "s' = s\<lparr>trainSpeed := Finite v1\<rparr>" | "s' = s\<lparr>trainSpeed := Finite v2\<rparr>" | "s' = s"
    using assms(2) unfolding keyboard_def lit_values ts(1) v1(1) v2(1)
    by (auto split: if_splits)
  then show ?thesis
  proof cases
    case 1
    then show ?thesis
      using tp ts bp bs wt tt
      by (intro in_bounds_values [where tp = tp and ts = ts and bp = bp and wt = wt and tt = tt])
        simp_all
  next
    case 2
    then show ?thesis
      using tp v1 bp bs wt tt
      by (intro in_bounds_values [where tp = tp and ts = v1 and bp = bp and wt = wt and tt = tt])
        simp_all
  next
    case 3
    then show ?thesis
      using tp v2 bp bs wt tt
      by (intro in_bounds_values [where tp = tp and ts = v2 and bp = bp and wt = wt and tt = tt])
        simp_all
  next
    case 4
    then show ?thesis using assms(1) by simp
  qed
qed

lemma in_bounds_run:
  "in_bounds s \<Longrightarrow> run es s = Some s' \<Longrightarrow> in_bounds s'"
proof (induction es arbitrary: s)
  case Nil
  then show ?case by simp
next
  case (Cons e es)
  show ?case
  proof (cases e)
    case Tick
    with Cons.prems(2) have "run es (update s) = Some s'" by simp
    from Cons.IH [OF in_bounds_update [OF Cons.prems(1)] this] show ?thesis .
  next
    case (Key k)
    with Cons.prems(2) obtain s1 where k: "keyboard k s = Some s1" and r: "run es s1 = Some s'"
      by (auto split: option.splits)
    from Cons.IH [OF in_bounds_keyboard [OF Cons.prems(1) k] r] show ?thesis .
  qed
qed

section \<open>The two signals are half a cycle apart\<close>

lemma f32_lt_imp_le: "f32_lt a b \<Longrightarrow> f32_le a b"
  by (cases a; cases b) auto

lemma f32_le_refl_fin: "f32_le (Finite a) (Finite a)"
  by simp

lemma fmod_nonneg:
  assumes "0 \<le> a" and "0 < b"
  shows "f32_fmod (Finite a) (Finite b) = Finite (a - b * of_int \<lfloor>a / b\<rfloor>)"
  using assms by (simp add: trunc_nonneg)

lemma round_small:
  assumes "0 \<le> x" and "x < 131072"
  shows "f32_round x = Finite (round_val x)" and "0 \<le> round_val x"
    and "\<bar>round_val x - x\<bar> \<le> 1 / 256"
proof -
  have small: "\<bar>x\<bar> \<le> 8388608" using assms by simp
  show "f32_round x = Finite (round_val x)"
    by (rule f32_round_finite, rule small_le_pow2_127, rule small)
  show "0 \<le> round_val x" "\<bar>round_val x - x\<bar> \<le> 1 / 256"
  proof -
    have "0 \<le> round_val x \<and> \<bar>round_val x - x\<bar> \<le> 1 / 256"
    proof (cases "x = 0")
      case True
      then show ?thesis by simp
    next
      case False
      have "qexp x \<le> max (17 - 24) (- 149)"
        using False assms by (intro qexp_le) (simp_all add: pow2_numeral_vals)
      then have q: "qexp x \<le> - 7" by simp
      have lo: "0 \<le> round_val x"
        using round_val_lower [of 0 0 x] assms(1) q by simp
      have "pow2 (qexp x) \<le> pow2 (- 7)" using q by (rule pow2_mono)
      also have "pow2 (- 7) = 1 / 128" by (simp add: pow2_def)
      finally have "pow2 (qexp x) / 2 \<le> 1 / 256" by simp
      with round_val_err [OF False] have "\<bar>round_val x - x\<bar> \<le> 1 / 256" by linarith
      with lo show ?thesis by simp
    qed
    then show "0 \<le> round_val x" "\<bar>round_val x - x\<bar> \<le> 1 / 256" by simp_all
  qed
qed

lemma floor_div6:
  fixes r :: real
  assumes "of_int k * 6 \<le> r" and "r < of_int k * 6 + 6"
  shows "\<lfloor>r / 6\<rfloor> = k"
proof (rule floor_unique)
  show "of_int k \<le> r / 6" using assms(1) by (simp add: field_simps)
  show "r / 6 < of_int k + 1" using assms(2) by (simp add: field_simps)
qed

lemma floor_div6_next:
  fixes r :: real
  assumes "of_int k * 6 + 6 \<le> r" and "r < of_int k * 6 + 12"
  shows "\<lfloor>r / 6\<rfloor> = k + 1"
proof (rule floor_unique)
  show "of_int (k + 1) \<le> r / 6" using assms(1) by (simp add: field_simps)
  show "r / 6 < of_int (k + 1) + 1" using assms(2) by (simp add: field_simps)
qed

lemma signals_differ_value:
  assumes "0 \<le> tt" and "tt < 100000"
  shows "signal_lamps (Finite tt) (lit 0) \<noteq> signal_lamps (Finite tt) (lit 3)"
proof -
  define u where "u = round_val (tt + 0)"
  define w where "w = round_val (tt + 3)"
  have U: "f32_add (Finite tt) (Finite 0) = Finite u" "0 \<le> u" "\<bar>u - (tt + 0)\<bar> \<le> 1 / 256"
    unfolding u_def f32_add.simps by (rule round_small; use assms in simp)+
  have W: "f32_add (Finite tt) (Finite 3) = Finite w" "0 \<le> w" "\<bar>w - (tt + 3)\<bar> \<le> 1 / 256"
    unfolding w_def f32_add.simps by (rule round_small; use assms in simp)+
  define k where "k = \<lfloor>u / 6\<rfloor>"
  define t0 where "t0 = u - 6 * of_int k"
  have t0: "0 \<le> t0" "t0 < 6"
    unfolding t0_def k_def by (simp_all add: field_simps) linarith+
  have "\<bar>w - (u + 3)\<bar> \<le> 1 / 128"
    using U(3) W(3) by linarith
  moreover have "of_int k * 6 + t0 + 3 = u + 3" by (simp add: t0_def)
  ultimately have wv: "\<bar>w - (of_int k * 6 + t0 + 3)\<bar> \<le> 1 / 128"
    by (simp only:)
  have fm0: "f32_fmod (Finite u) (Finite 6) = Finite t0"
    using U(2) by (simp add: trunc_nonneg t0_def k_def)
  have L0: "signal_lamps (Finite tt) (lit 0) = (t0 < 5 / 2, 5 / 2 \<le> t0 \<and> t0 < 5, 5 \<le> t0)"
    unfolding signal_lamps_def lit_values U(1) Let_def fm0 by simp
  define t3 where "t3 = w - 6 * of_int \<lfloor>w / 6\<rfloor>"
  have fm3: "f32_fmod (Finite w) (Finite 6) = Finite t3"
    using W(2) by (simp add: trunc_nonneg t3_def)
  have L3: "signal_lamps (Finite tt) (lit 3) = (t3 < 5 / 2, 5 / 2 \<le> t3 \<and> t3 < 5, 5 \<le> t3)"
    unfolding signal_lamps_def lit_values W(1) Let_def fm3 by simp
  consider "t0 + 3 + (w - (of_int k * 6 + t0 + 3)) < 6" | "6 \<le> t0 + 3 + (w - (of_int k * 6 + t0 + 3))"
    by linarith
  then show ?thesis
  proof cases
    case 1
    have a: "of_int k * 6 \<le> w" and b: "w < of_int k * 6 + 6"
      using 1 wv t0 by linarith+
    have "\<lfloor>w / 6\<rfloor> = k" using a b by (rule floor_div6)
    then have e: "t3 = w - 6 * of_int k" by (simp add: t3_def)
    have "5 / 2 \<le> t3" using e 1 wv t0 by linarith
    moreover have "t0 < 5" using e 1 wv t0 by linarith
    moreover have "5 / 2 \<le> t0 \<longrightarrow> 5 \<le> t3" using e 1 wv t0 by linarith
    ultimately show ?thesis unfolding L0 L3 by auto
  next
    case 2
    have a: "of_int k * 6 + 6 \<le> w" and b: "w < of_int k * 6 + 12"
      using 2 wv t0 by linarith+
    have "\<lfloor>w / 6\<rfloor> = k + 1" using a b by (rule floor_div6_next)
    then have e: "t3 = w - 6 * of_int k - 6" by (simp add: t3_def)
    have "t3 < 5" using e 2 wv t0 by linarith
    moreover have "5 / 2 \<le> t0" using e 2 wv t0 by linarith
    moreover have "t0 < 5 \<longrightarrow> t3 < 5 / 2" using e 2 wv t0 by linarith
    ultimately show ?thesis unfolding L0 L3 by auto
  qed
qed

section \<open>The speed keys\<close>

lemma keyboard_minus:
  "keyboard CHR ''-'' s =
     Some (s\<lparr>trainSpeed := f32_max (lit 0.2) (f32_sub (trainSpeed s) (lit 0.2))\<rparr>)"
  by (simp add: keyboard_def)

lemma f32_max_ge_left: "f32_le (Finite c) (f32_max (Finite c) y)"
  by (simp add: f32_max_def f32_lt_imp_le)

lemma minus_floor: "keyboard CHR ''-'' s = Some s' \<Longrightarrow> f32_le (lit 0.2) (trainSpeed s')"
  unfolding keyboard_minus lit_values using f32_max_ge_left by auto

lemma minus_presses:
  "0 < n \<or> f32_le (lit 0.2) (trainSpeed s) \<Longrightarrow>
   \<exists>s'. run (replicate n (Key CHR ''-'')) s = Some s' \<and> f32_le (lit 0.2) (trainSpeed s')"
proof (induction n arbitrary: s)
  case 0
  then show ?case by simp
next
  case (Suc n)
  obtain s1 where k: "keyboard CHR ''-'' s = Some s1" using keyboard_minus by blast
  have "f32_le (lit 0.2) (trainSpeed s1)" using k by (rule minus_floor)
  then have "\<exists>s'. run (replicate n (Key CHR ''-'')) s1 = Some s' \<and> f32_le (lit 0.2) (trainSpeed s')"
    by (intro Suc.IH) simp
  then show ?case using k by simp
qed

lemma minus_at_floor:
  assumes "trainSpeed s = lit 0.2"
  shows "keyboard CHR ''-'' s = Some s"
proof -
  have "f32_sub (Finite (13421773 / 67108864)) (Finite (13421773 / 67108864)) = Finite 0"
    by (simp add: f32_sub_def f32_round_def)
  then have "f32_max (lit 0.2) (f32_sub (trainSpeed s) (lit 0.2)) = trainSpeed s"
    unfolding assms lit_values by (simp add: f32_max_def)
  then show ?thesis unfolding keyboard_minus by simp
qed


section \<open>The water time\<close>

lemma water_increase:
  assumes "0 \<le> w" and "w \<le> 524287"
  shows "\<exists>w'. f32_add (Finite w) (Finite (8589935 / 536870912)) = Finite w'
              \<and> w < w' \<and> w' \<le> w + 0.032"
proof -
  define x where "x = w + 8589935 / 536870912"
  have xpos: "0 < x" and xlt: "x < 524288" using assms by (simp_all add: x_def)
  have small: "\<bar>x\<bar> \<le> 8388608" using xpos xlt by simp
  have fin: "f32_add (Finite w) (Finite (8589935 / 536870912)) = Finite (round_val x)"
    unfolding x_def f32_add.simps
    by (rule f32_round_finite, rule small_le_pow2_127) (use small in \<open>simp add: x_def\<close>)
  have "qexp x \<le> max (19 - 24) (- 149)"
    using xpos xlt by (intro qexp_le) (simp_all add: pow2_numeral_vals)
  then have "pow2 (qexp x) \<le> pow2 (- 5)" by (intro pow2_mono) simp
  also have "pow2 (- 5) = 1 / 32" by (simp add: pow2_def)
  finally have "pow2 (qexp x) / 2 \<le> 1 / 64" by simp
  moreover have "\<bar>round_val x - x\<bar> \<le> pow2 (qexp x) / 2"
    using xpos by (intro round_val_err) simp
  ultimately have "\<bar>round_val x - x\<bar> \<le> 1 / 64" by linarith
  then have "w < round_val x" "round_val x \<le> w + 0.032"
    unfolding x_def by (simp_all; linarith)+
  with fin show ?thesis by blast
qed


section \<open>The phase of one signal\<close>

lemma lamps_of_phase:
  assumes "f32_add timer p = Finite x" and "0 \<le> x"
  shows "signal_lamps timer p =
           (x - 6 * of_int \<lfloor>x / 6\<rfloor> < 2.5,
            2.5 \<le> x - 6 * of_int \<lfloor>x / 6\<rfloor> \<and> x - 6 * of_int \<lfloor>x / 6\<rfloor> < 5,
            5 \<le> x - 6 * of_int \<lfloor>x / 6\<rfloor>)"
proof -
  have "f32_fmod (Finite x) (Finite 6) = Finite (x - 6 * of_int \<lfloor>x / 6\<rfloor>)"
    using assms(2) by (simp add: trunc_nonneg)
  then show ?thesis
    unfolding signal_lamps_def lit_values assms(1) Let_def by simp
qed

lemma phase_range:
  fixes x :: real
  shows "0 \<le> x - 6 * of_int \<lfloor>x / 6\<rfloor>" and "x - 6 * of_int \<lfloor>x / 6\<rfloor> < 6"
proof -
  have "of_int \<lfloor>x / 6\<rfloor> \<le> x / 6" "x / 6 < of_int \<lfloor>x / 6\<rfloor> + 1" by linarith+
  then show "0 \<le> x - 6 * of_int \<lfloor>x / 6\<rfloor>" "x - 6 * of_int \<lfloor>x / 6\<rfloor> < 6"
    by linarith+
qed

lemma phase_periodic:
  fixes x :: real
  shows "(x + 6 * real k) - 6 * of_int \<lfloor>(x + 6 * real k) / 6\<rfloor> = x - 6 * of_int \<lfloor>x / 6\<rfloor>"
proof -
  have "(x + 6 * real k) / 6 = x / 6 + of_int (int k)" by simp
  then have "\<lfloor>(x + 6 * real k) / 6\<rfloor> = \<lfloor>x / 6\<rfloor> + int k"
    by (simp only: floor_add_int)
  then show ?thesis by simp
qed


section \<open>The calls of the lamp posts\<close>

lemma small_ints_round:
  "f32_round 290 = Finite 290" "f32_round 278 = Finite 278" "f32_round 202 = Finite 202"
  "f32_round 442 = Finite 442" "f32_round 682 = Finite 682" "f32_round 170 = Finite 170"
  "f32_round 22 = Finite 22" "f32_round (- 12) = Finite (- 12)" "f32_round 0 = Finite 0"
  by (simp_all add: f32_eval)

lemma three_lamps_calls_eq:
  "three_lamps_calls =
     [(Finite 180, Finite 120, Finite 180, Finite 290),
      (Finite 180, Finite 290, Finite 202, Finite 290),
      (Finite 202, Finite 290, Finite 202, Finite 278),
      (Finite 420, Finite 120, Finite 420, Finite 290),
      (Finite 420, Finite 290, Finite 442, Finite 290),
      (Finite 442, Finite 290, Finite 442, Finite 278),
      (Finite 660, Finite 120, Finite 660, Finite 290),
      (Finite 660, Finite 290, Finite 682, Finite 290),
      (Finite 682, Finite 290, Finite 682, Finite 278)]"
  unfolding three_lamps_calls_def lamp_post_calls_def lit_values Let_def
  by (simp add: f32_sub_def small_ints_round)


lemma is_f32_grid:
  assumes "is_f32 a"
  shows "\<exists>N. a = of_int N * pow2 (- 149)"
proof -
  from assms obtain m e where a: "a = of_int m * pow2 e" and e: "- 149 \<le> e"
    unfolding is_f32_def by blast
  have "a = of_int (m * 2 ^ nat (e - - 149)) * pow2 (- 149)"
    unfolding a using pow2_diff_nat [OF e] by simp
  then show ?thesis by blast
qed

lemma round_val_nonzero:
  assumes "pow2 (- 149) \<le> \<bar>x\<bar>"
  shows "round_val x \<noteq> 0"
proof -
  have nz: "x \<noteq> 0" using assms pow2_pos [of "- 149"] by auto
  define e where "e = qexp x"
  have "pow2 (expo x - 23) \<le> pow2 (expo x)" by (rule pow2_mono) simp
  with expo_bounds(1) [OF nz] have "pow2 (expo x - 23) \<le> \<bar>x\<bar>" by linarith
  with assms have big: "pow2 e \<le> \<bar>x\<bar>" by (simp add: e_def qexp_def max_def)
  have p: "0 < pow2 e" by simp
  have "rne (x / pow2 e) \<noteq> 0"
  proof (cases "0 < x")
    case True
    then have "of_int 1 \<le> x / pow2 e" using big p by (simp add: field_simps)
    then have "1 \<le> rne (x / pow2 e)" by (rule rne_ge)
    then show ?thesis by simp
  next
    case False
    then have "x / pow2 e \<le> of_int (- 1)" using big p nz by (simp add: field_simps)
    then have "rne (x / pow2 e) \<le> - 1" by (rule rne_le)
    then show ?thesis by simp
  qed
  then show ?thesis using nz by (simp add: round_val_nz e_def)
qed

lemma f32_sub_zero_iff:
  assumes "is_f32 a" and "is_f32 b"
  shows "f32_sub (Finite a) (Finite b) = Finite 0 \<longleftrightarrow> a = b"
proof
  assume "a = b"
  then show "f32_sub (Finite a) (Finite b) = Finite 0"
    by (simp add: f32_sub_def f32_round_def)
next
  assume z: "f32_sub (Finite a) (Finite b) = Finite 0"
  show "a = b"
  proof (rule ccontr)
    assume ne: "a \<noteq> b"
    from is_f32_grid [OF assms(1)] is_f32_grid [OF assms(2)] obtain M N where
      a: "a = of_int M * pow2 (- 149)" and b: "b = of_int N * pow2 (- 149)" by blast
    have d: "a + - b = of_int (M - N) * pow2 (- 149)" by (simp add: a b algebra_simps)
    have "M \<noteq> N" using ne a b by auto
    then have "1 \<le> \<bar>M - N\<bar>" by simp
    then have "(1::real) \<le> \<bar>of_int (M - N)\<bar>"
      by (metis of_int_1 of_int_abs of_int_le_iff)
    then have "1 * pow2 (- 149) \<le> \<bar>of_int (M - N)\<bar> * pow2 (- 149)"
      by (rule mult_right_mono) (rule pow2_nonneg)
    then have "pow2 (- 149) \<le> \<bar>a + - b\<bar>" unfolding d by (simp add: abs_mult)
    then have "round_val (a + - b) \<noteq> 0" by (rule round_val_nonzero)
    then have "f32_round (a + - b) \<noteq> Finite 0"
      by (auto simp: f32_round_def Let_def)
    with z show False by (simp add: f32_sub_def)
  qed
qed

lemma f32_sub_not_nan: "f32_sub (Finite a) (Finite b) \<noteq> NaN"
  by (simp add: f32_sub_def f32_round_def Let_def)

lemma fabs_zero_iff: "f32_fabs d = Finite 0 \<longleftrightarrow> d = Finite 0"
  by (cases d) auto

lemma fabs_pos: "d \<noteq> NaN \<Longrightarrow> d \<noteq> Finite 0 \<Longrightarrow> f32_lt (Finite 0) (f32_fabs d)"
  by (cases d) auto

lemma fabs_not_neg: "\<not> f32_lt (f32_fabs d) (Finite 0)"
  by (cases d) auto

lemma steps_zero_iff:
  assumes "is_f32 x1" and "is_f32 y1" and "is_f32 x2" and "is_f32 y2"
  shows "drawLineDDA_Lamp_steps (Finite x1) (Finite y1) (Finite x2) (Finite y2) = Finite 0
         \<longleftrightarrow> x1 = x2 \<and> y1 = y2"
proof -
  define dx where "dx = f32_sub (Finite x2) (Finite x1)"
  define dy where "dy = f32_sub (Finite y2) (Finite y1)"
  have s: "drawLineDDA_Lamp_steps (Finite x1) (Finite y1) (Finite x2) (Finite y2)
           = (if f32_lt (f32_fabs dy) (f32_fabs dx) then f32_fabs dx else f32_fabs dy)"
    by (simp add: drawLineDDA_Lamp_steps_def dx_def dy_def Let_def)
  have zx: "dx = Finite 0 \<longleftrightarrow> x1 = x2"
    unfolding dx_def using f32_sub_zero_iff [OF assms(3,1)] by auto
  have zy: "dy = Finite 0 \<longleftrightarrow> y1 = y2"
    unfolding dy_def using f32_sub_zero_iff [OF assms(4,2)] by auto
  have nx: "dx \<noteq> NaN" and ny: "dy \<noteq> NaN"
    unfolding dx_def dy_def by (rule f32_sub_not_nan)+
  show ?thesis
  proof
    assume "x1 = x2 \<and> y1 = y2"
    then have "dx = Finite 0" "dy = Finite 0" using zx zy by simp_all
    then show "drawLineDDA_Lamp_steps (Finite x1) (Finite y1) (Finite x2) (Finite y2) = Finite 0"
      unfolding s by simp
  next
    assume z: "drawLineDDA_Lamp_steps (Finite x1) (Finite y1) (Finite x2) (Finite y2) = Finite 0"
    have x: "dx = Finite 0"
    proof (rule ccontr)
      assume ne: "dx \<noteq> Finite 0"
      then have pos: "f32_lt (Finite 0) (f32_fabs dx)" using nx by (intro fabs_pos)
      show False
      proof (cases "f32_lt (f32_fabs dy) (f32_fabs dx)")
        case True
        with z have "f32_fabs dx = Finite 0" unfolding s by simp
        with ne show False by (simp add: fabs_zero_iff)
      next
        case False
        with z have "f32_fabs dy = Finite 0" unfolding s by simp
        with False pos show False by simp
      qed
    qed
    then have "\<not> f32_lt (f32_fabs dy) (f32_fabs dx)" using fabs_not_neg [of dy] by simp
    with z have "f32_fabs dy = Finite 0" unfolding s by simp
    then have "dy = Finite 0" by (simp add: fabs_zero_iff)
    with x show "x1 = x2 \<and> y1 = y2" using zx zy by simp
  qed
qed

lemma is_f32_int: "\<bar>m\<bar> < 2 ^ 24 \<Longrightarrow> is_f32 (of_int m)"
  unfolding is_f32_def by (intro exI [of _ m] exI [of _ 0]) simp

section \<open>Repeated addition\<close>

lemma adds_add: "adds (m + n) c p = adds n c (adds m c p)"
  by (induction n) simp_all

lemma pow2_half: "pow2 (K - 24) / 2 = pow2 (K - 25)"
proof -
  have "pow2 (K - 24) = pow2 ((K - 25) + 1)" by simp
  also have "\<dots> = pow2 (K - 25) * 2" by (simp only: pow2_add pow2_1)
  finally show ?thesis by simp
qed

lemma round_val_err_range:
  assumes "\<bar>x\<bar> < pow2 K" and "- 125 \<le> K"
  shows "\<bar>round_val x - x\<bar> \<le> pow2 (K - 25)"
proof (cases "x = 0")
  case True
  then show ?thesis by simp
next
  case False
  have "qexp x \<le> max (K - 24) (- 149)" using False assms(1) by (rule qexp_le)
  then have "qexp x \<le> K - 24" using assms(2) by simp
  then have "pow2 (qexp x) \<le> pow2 (K - 24)" by (rule pow2_mono)
  then have "pow2 (qexp x) / 2 \<le> pow2 (K - 25)" unfolding pow2_half [symmetric] by simp
  with round_val_err [OF False] show ?thesis by linarith
qed

text \<open>Repeated addition drifts from the exact sum by at most half a last place per step.\<close>

lemma adds_drift:
  assumes "- 125 \<le> K" and "K \<le> 127"
  shows "(\<forall>k\<le>n. \<bar>p + real k * c\<bar> + real k * pow2 (K - 25) < pow2 K) \<Longrightarrow>
         \<exists>q. adds n (Finite c) (Finite p) = Finite q
             \<and> \<bar>q - (p + real n * c)\<bar> \<le> real n * pow2 (K - 25)"
proof (induction n)
  case 0
  then show ?case by simp
next
  case (Suc n)
  define eps where "eps = pow2 (K - 25)"
  have epos: "0 < eps" by (simp add: eps_def)
  have "\<forall>k\<le>n. \<bar>p + real k * c\<bar> + real k * pow2 (K - 25) < pow2 K"
    using Suc.prems by simp
  from Suc.IH [OF this] obtain q where
    q: "adds n (Finite c) (Finite p) = Finite q" "\<bar>q - (p + real n * c)\<bar> \<le> real n * eps"
    unfolding eps_def by blast
  define x where "x = q + c"
  have tgt: "\<bar>p + real (Suc n) * c\<bar> + real (Suc n) * eps < pow2 K"
    using Suc.prems unfolding eps_def by blast
  have d: "\<bar>x - (p + real (Suc n) * c)\<bar> \<le> real n * eps"
    using q(2) by (simp add: x_def algebra_simps)
  have "\<bar>x\<bar> \<le> \<bar>p + real (Suc n) * c\<bar> + real n * eps" using d by linarith
  also have "\<dots> < \<bar>p + real (Suc n) * c\<bar> + real (Suc n) * eps"
    using epos by (simp add: algebra_simps)
  finally have xs: "\<bar>x\<bar> < pow2 K" using tgt by linarith
  have "pow2 K \<le> pow2 127" using assms(2) by (rule pow2_mono)
  with xs have "\<bar>x\<bar> \<le> pow2 127" by linarith
  then have fin: "f32_round x = Finite (round_val x)" by (rule f32_round_finite)
  have "\<bar>round_val x - x\<bar> \<le> eps"
    unfolding eps_def using xs assms(1) by (rule round_val_err_range)
  with d have "\<bar>round_val x - (p + real (Suc n) * c)\<bar> \<le> real n * eps + eps" by linarith
  then have "\<bar>round_val x - (p + real (Suc n) * c)\<bar> \<le> real (Suc n) * eps"
    by (simp add: algebra_simps)
  moreover have "adds (Suc n) (Finite c) (Finite p) = Finite (round_val x)"
    using fin by (simp add: q(1) x_def)
  ultimately show ?case unfolding eps_def by blast
qed

lemma ticks_Suc_right: "ticks (Suc n) s = update (ticks n s)"
  by (induction n arbitrary: s) simp_all

lemma ticks_frame [simp]:
  "paused (ticks n s) = paused s" "trainSpeed (ticks n s) = trainSpeed s"
  "boatSpeed (ticks n s) = boatSpeed s"
  by (induction n arbitrary: s) simp_all

lemma waterTime_ticks: "waterTime (ticks n s) = adds n (Finite (8589935 / 536870912)) (waterTime s)"
proof (induction n)
  case 0
  then show ?case by simp
next
  case (Suc n)
  show ?case
    unfolding ticks_Suc_right update_frame lit_values Suc.IH by simp
qed

lemma trainPos_ticks:
  assumes "\<not> paused s"
  shows "(\<forall>k<n. \<not> f32_lt (Finite 1160) (adds (Suc k) (trainSpeed s) (trainPos s))) \<Longrightarrow>
         trainPos (ticks n s) = adds n (trainSpeed s) (trainPos s)"
proof (induction n)
  case 0
  then show ?case by simp
next
  case (Suc n)
  have ih: "trainPos (ticks n s) = adds n (trainSpeed s) (trainPos s)"
    using Suc by simp
  have nw: "\<not> f32_lt (Finite 1160) (adds (Suc n) (trainSpeed s) (trainPos s))"
    using Suc.prems by simp
  have np: "\<not> paused (ticks n s)" using assms by simp
  show ?case
    unfolding ticks_Suc_right update_trainPos [OF np] ih ticks_frame
    using nw by simp
qed

lemma boatPos_ticks:
  assumes "\<not> paused s"
  shows "(\<forall>k<n. \<not> f32_lt (Finite 920) (adds (Suc k) (boatSpeed s) (boatPos s))) \<Longrightarrow>
         boatPos (ticks n s) = adds n (boatSpeed s) (boatPos s)"
proof (induction n)
  case 0
  then show ?case by simp
next
  case (Suc n)
  have ih: "boatPos (ticks n s) = adds n (boatSpeed s) (boatPos s)"
    using Suc by simp
  have nw: "\<not> f32_lt (Finite 920) (adds (Suc n) (boatSpeed s) (boatPos s))"
    using Suc.prems by simp
  have np: "\<not> paused (ticks n s)" using assms by simp
  show ?case
    unfolding ticks_Suc_right update_boatPos [OF np] ih ticks_frame
    using nw by simp
qed

lemma trafficTimer_ticks:
  assumes "\<not> paused s"
  shows "(\<forall>k<n. \<not> f32_le (Finite 100000)
              (adds (Suc k) (Finite (8589935 / 536870912)) (trafficTimer s))) \<Longrightarrow>
         trafficTimer (ticks n s) = adds n (Finite (8589935 / 536870912)) (trafficTimer s)"
proof (induction n)
  case 0
  then show ?case by simp
next
  case (Suc n)
  have ih: "trafficTimer (ticks n s) = adds n (Finite (8589935 / 536870912)) (trafficTimer s)"
    using Suc by simp
  have nw: "\<not> f32_le (Finite 100000)
              (adds (Suc n) (Finite (8589935 / 536870912)) (trafficTimer s))"
    using Suc.prems by simp
  have np: "\<not> paused (ticks n s)" using assms by simp
  show ?case
    unfolding ticks_Suc_right update_trafficTimer [OF np] ih Let_def
    using nw by simp
qed

lemma f32_add_grid_step:
  assumes "- 149 \<le> e" and "e \<le> 103" and "\<bar>c / pow2 e - of_int d\<bar> < 1 / 2"
    and "pow2 (e + 23) \<le> \<bar>of_int k * pow2 e + c\<bar>"
    and "\<bar>of_int k * pow2 e + c\<bar> < pow2 (e + 24)"
  shows "f32_add (Finite (of_int k * pow2 e)) (Finite c) = Finite (of_int (k + d) * pow2 e)"
proof -
  define x where "x = of_int k * pow2 e + c"
  have "f32_round x = Finite (of_int (rne (x / pow2 e)) * pow2 e)"
    using assms(4,5,1,2) unfolding x_def by (rule f32_round_binade)
  moreover have "x / pow2 e = of_int k + c / pow2 e"
    by (simp add: x_def field_simps)
  then have "rne (x / pow2 e) = k + d"
    using assms(3) by (intro rne_near) simp
  ultimately show ?thesis by (simp add: x_def)
qed

lemma adds_grid:
  assumes "- 149 \<le> e" and "e \<le> 103" and "\<bar>c / pow2 e - of_int d\<bar> < 1 / 2"
  shows "(\<forall>j<n. pow2 (e + 23) \<le> \<bar>of_int (k + int j * d) * pow2 e + c\<bar>
               \<and> \<bar>of_int (k + int j * d) * pow2 e + c\<bar> < pow2 (e + 24)) \<Longrightarrow>
         adds n (Finite c) (Finite (of_int k * pow2 e)) = Finite (of_int (k + int n * d) * pow2 e)"
proof (induction n)
  case 0
  then show ?case by simp
next
  case (Suc n)
  have ih: "adds n (Finite c) (Finite (of_int k * pow2 e)) = Finite (of_int (k + int n * d) * pow2 e)"
    using Suc by simp
  have r: "pow2 (e + 23) \<le> \<bar>of_int (k + int n * d) * pow2 e + c\<bar>"
    "\<bar>of_int (k + int n * d) * pow2 e + c\<bar> < pow2 (e + 24)"
    using Suc.prems by simp_all
  have eq: "k + int n * d + d = k + int (Suc n) * d" by (simp add: algebra_simps)
  show ?case
    unfolding adds.simps ih f32_add_grid_step [OF assms r] eq by (rule refl)
qed

text \<open>Below zero and moving up: the first and the last sum of a stretch decide the binade.\<close>

lemma adds_grid_neg:
  assumes "- 149 \<le> e" and "e \<le> 103" and "\<bar>c / pow2 e - of_int d\<bar> < 1 / 2"
    and "0 \<le> d" and "0 < n"
    and "- pow2 (e + 24) < of_int k * pow2 e + c"
    and "of_int (k + int (n - 1) * d) * pow2 e + c \<le> - pow2 (e + 23)"
  shows "adds n (Finite c) (Finite (of_int k * pow2 e)) = Finite (of_int (k + int n * d) * pow2 e)"
proof (rule adds_grid [OF assms(1-3)], intro allI impI)
  fix j assume j: "j < n"
  have "int j * d \<le> int (n - 1) * d" using j assms(4) by (intro mult_right_mono) simp_all
  then have "k + int j * d \<le> k + int (n - 1) * d" by simp
  then have "(of_int (k + int j * d) :: real) \<le> of_int (k + int (n - 1) * d)"
    by (simp only: of_int_le_iff)
  then have up: "of_int (k + int j * d) * pow2 e \<le> of_int (k + int (n - 1) * d) * pow2 e"
    by (rule mult_right_mono) (rule pow2_nonneg)
  have "0 \<le> int j * d" using assms(4) by simp
  then have "k \<le> k + int j * d" by simp
  then have "(of_int k :: real) \<le> of_int (k + int j * d)"
    by (simp only: of_int_le_iff)
  then have lo: "of_int k * pow2 e \<le> of_int (k + int j * d) * pow2 e"
    by (rule mult_right_mono) (rule pow2_nonneg)
  have p: "0 < pow2 (e + 23)" by simp
  show "pow2 (e + 23) \<le> \<bar>of_int (k + int j * d) * pow2 e + c\<bar>
        \<and> \<bar>of_int (k + int j * d) * pow2 e + c\<bar> < pow2 (e + 24)"
    using up lo assms(6,7) p by linarith
qed

text \<open>Above zero and moving up.\<close>

lemma adds_grid_pos:
  assumes "- 149 \<le> e" and "e \<le> 103" and "\<bar>c / pow2 e - of_int d\<bar> < 1 / 2"
    and "0 \<le> d" and "0 < n"
    and "pow2 (e + 23) \<le> of_int k * pow2 e + c"
    and "of_int (k + int (n - 1) * d) * pow2 e + c < pow2 (e + 24)"
  shows "adds n (Finite c) (Finite (of_int k * pow2 e)) = Finite (of_int (k + int n * d) * pow2 e)"
proof (rule adds_grid [OF assms(1-3)], intro allI impI)
  fix j assume j: "j < n"
  have "int j * d \<le> int (n - 1) * d" using j assms(4) by (intro mult_right_mono) simp_all
  then have "k + int j * d \<le> k + int (n - 1) * d" by simp
  then have "(of_int (k + int j * d) :: real) \<le> of_int (k + int (n - 1) * d)"
    by (simp only: of_int_le_iff)
  then have up: "of_int (k + int j * d) * pow2 e \<le> of_int (k + int (n - 1) * d) * pow2 e"
    by (rule mult_right_mono) (rule pow2_nonneg)
  have "0 \<le> int j * d" using assms(4) by simp
  then have "k \<le> k + int j * d" by simp
  then have "(of_int k :: real) \<le> of_int (k + int j * d)"
    by (simp only: of_int_le_iff)
  then have lo: "of_int k * pow2 e \<le> of_int (k + int j * d) * pow2 e"
    by (rule mult_right_mono) (rule pow2_nonneg)
  have p: "0 < pow2 (e + 23)" by simp
  show "pow2 (e + 23) \<le> \<bar>of_int (k + int j * d) * pow2 e + c\<bar>
        \<and> \<bar>of_int (k + int j * d) * pow2 e + c\<bar> < pow2 (e + 24)"
    using up lo assms(6,7) p by linarith
qed

section \<open>A hundred additions, binade by binade\<close>

text \<open>
  Within one binade every sum lands on the same grid, so a whole stretch of steps
  is one application of the grid lemma; a tie or a change of grid is one step.
\<close>

lemma adds_one: "f32_add p c = q \<Longrightarrow> adds 1 c p = q"
  by simp

lemma adds_split: "N = a + b \<Longrightarrow> adds N c p = adds b c (adds a c p)"
  by (simp add: adds_add)

lemma train_100:
  "adds 100 (Finite (11744051 / 4194304)) (Finite (- 520)) = Finite (- (7864357 / 32768))"
proof -
  let ?c = "Finite (11744051 / 4194304)"
  have p0: "adds 2 ?c (Finite (- 520)) = Finite (- (4213965 / 8192))"
    using adds_grid_neg [of "- 14" "11744051 / 4194304" 45875 2 "- 8519680"]
    by (simp add: pow2_def)
  note s0 = p0
  have p1: "adds 92 ?c (Finite (- (4213965 / 8192))) = Finite (- (2103715 / 8192))"
    using adds_grid_neg [of "- 15" "11744051 / 4194304" 91750 92 "- 16855860"]
    by (simp add: pow2_def)
  have "adds 94 ?c (Finite (- 520)) = adds 92 ?c (adds 2 ?c (Finite (- 520)))"
    by (rule adds_split) simp
  also have "\<dots> = Finite (- (2103715 / 8192))" unfolding s0 by (rule p1)
  finally have s1: "adds 94 ?c (Finite (- 520)) = Finite (- (2103715 / 8192))" .
  have p2: "adds 6 ?c (Finite (- (2103715 / 8192))) = Finite (- (7864357 / 32768))"
    using adds_grid_neg [of "- 16" "11744051 / 4194304" 183501 6 "- 16829720"]
    by (simp add: pow2_def)
  have "adds 100 ?c (Finite (- 520)) = adds 6 ?c (adds 94 ?c (Finite (- 520)))"
    by (rule adds_split) simp
  also have "\<dots> = Finite (- (7864357 / 32768))" unfolding s1 by (rule p2)
  finally have s2: "adds 100 ?c (Finite (- 520)) = Finite (- (7864357 / 32768))" .
  show ?thesis by (rule s2)
qed

lemma boat_100:
  "adds 100 (Finite (5033165 / 4194304)) (Finite (- 120)) = Finite (- (117 / 1048576))"
proof -
  let ?c = "Finite (5033165 / 4194304)"
  have p0: "adds 46 ?c (Finite (- 120)) = Finite (- (2123371 / 32768))"
    using adds_grid_neg [of "- 17" "5033165 / 4194304" 157286 46 "- 15728640"]
    by (simp add: pow2_def)
  note s0 = p0
  have p1: "adds 27 ?c (Finite (- (2123371 / 32768))) = Finite (- (8493497 / 262144))"
    using adds_grid_neg [of "- 18" "5033165 / 4194304" 314573 27 "- 16986968"]
    by (simp add: pow2_def)
  have "adds 73 ?c (Finite (- 120)) = adds 27 ?c (adds 46 ?c (Finite (- 120)))"
    by (rule adds_split) simp
  also have "\<dots> = Finite (- (8493497 / 262144))" unfolding s0 by (rule p1)
  finally have s1: "adds 73 ?c (Finite (- 120)) = Finite (- (8493497 / 262144))" .
  have p2: "adds 13 ?c (Finite (- (8493497 / 262144))) = Finite (- (275253 / 16384))"
    using adds_grid_neg [of "- 19" "5033165 / 4194304" 629146 13 "- 16986994"]
    by (simp add: pow2_def)
  have "adds 86 ?c (Finite (- 120)) = adds 13 ?c (adds 73 ?c (Finite (- 120)))"
    by (rule adds_split) simp
  also have "\<dots> = Finite (- (275253 / 16384))" unfolding s1 by (rule p2)
  finally have s2: "adds 86 ?c (Finite (- 120)) = Finite (- (275253 / 16384))" .
  have p3: "adds 7 ?c (Finite (- (275253 / 16384))) = Finite (- (8808155 / 1048576))"
    using adds_grid_neg [of "- 20" "5033165 / 4194304" 1258291 7 "- 17616192"]
    by (simp add: pow2_def)
  have "adds 93 ?c (Finite (- 120)) = adds 7 ?c (adds 86 ?c (Finite (- 120)))"
    by (rule adds_split) simp
  also have "\<dots> = Finite (- (8808155 / 1048576))" unfolding s2 by (rule p3)
  finally have s3: "adds 93 ?c (Finite (- 120)) = Finite (- (8808155 / 1048576))" .
  have p4: "adds 1 ?c (Finite (- (8808155 / 1048576))) = Finite (- (943733 / 131072))"
    by (rule adds_one, rule f32_add_eval [where x = "- (30199455 / 4194304)"]) (simp_all add: f32_eval)
  have "adds 94 ?c (Finite (- 120)) = adds 1 ?c (adds 93 ?c (Finite (- 120)))"
    by (rule adds_split) simp
  also have "\<dots> = Finite (- (943733 / 131072))" unfolding s3 by (rule p4)
  finally have s4: "adds 94 ?c (Finite (- 120)) = Finite (- (943733 / 131072))" .
  have p5: "adds 1 ?c (Finite (- (943733 / 131072))) = Finite (- (6291573 / 1048576))"
    by (rule adds_one, rule f32_add_eval [where x = "- (25166291 / 4194304)"]) (simp_all add: f32_eval)
  have "adds 95 ?c (Finite (- 120)) = adds 1 ?c (adds 94 ?c (Finite (- 120)))"
    by (rule adds_split) simp
  also have "\<dots> = Finite (- (6291573 / 1048576))" unfolding s4 by (rule p5)
  finally have s5: "adds 95 ?c (Finite (- 120)) = Finite (- (6291573 / 1048576))" .
  have p6: "adds 1 ?c (Finite (- (6291573 / 1048576))) = Finite (- (2516641 / 524288))"
    by (rule adds_one, rule f32_add_eval [where x = "- (20133127 / 4194304)"]) (simp_all add: f32_eval)
  have "adds 96 ?c (Finite (- 120)) = adds 1 ?c (adds 95 ?c (Finite (- 120)))"
    by (rule adds_split) simp
  also have "\<dots> = Finite (- (2516641 / 524288))" unfolding s5 by (rule p6)
  finally have s6: "adds 96 ?c (Finite (- 120)) = Finite (- (2516641 / 524288))" .
  have p7: "adds 2 ?c (Finite (- (2516641 / 524288))) = Finite (- (5033399 / 2097152))"
    using adds_grid_neg [of "- 22" "5033165 / 4194304" 5033165 2 "- 20133128"]
    by (simp add: pow2_def)
  have "adds 98 ?c (Finite (- 120)) = adds 2 ?c (adds 96 ?c (Finite (- 120)))"
    by (rule adds_split) simp
  also have "\<dots> = Finite (- (5033399 / 2097152))" unfolding s6 by (rule p7)
  finally have s7: "adds 98 ?c (Finite (- 120)) = Finite (- (5033399 / 2097152))" .
  have p8: "adds 1 ?c (Finite (- (5033399 / 2097152))) = Finite (- (5033633 / 4194304))"
    using adds_grid_neg [of "- 23" "5033165 / 4194304" 10066330 1 "- 20133596"]
    by (simp add: pow2_def)
  have "adds 99 ?c (Finite (- 120)) = adds 1 ?c (adds 98 ?c (Finite (- 120)))"
    by (rule adds_split) simp
  also have "\<dots> = Finite (- (5033633 / 4194304))" unfolding s7 by (rule p8)
  finally have s8: "adds 99 ?c (Finite (- 120)) = Finite (- (5033633 / 4194304))" .
  have p9: "adds 1 ?c (Finite (- (5033633 / 4194304))) = Finite (- (117 / 1048576))"
    using adds_grid_neg [of "- 37" "5033165 / 4194304" 164926750720 1 "- 164942086144"]
    by (simp add: pow2_def)
  have "adds 100 ?c (Finite (- 120)) = adds 1 ?c (adds 99 ?c (Finite (- 120)))"
    by (rule adds_split) simp
  also have "\<dots> = Finite (- (117 / 1048576))" unfolding s8 by (rule p9)
  finally have s9: "adds 100 ?c (Finite (- 120)) = Finite (- (117 / 1048576))" .
  show ?thesis by (rule s9)
qed

lemma timer_100:
  "adds 100 (Finite (8589935 / 536870912)) (Finite (0)) = Finite (838861 / 524288)"
proof -
  let ?c = "Finite (8589935 / 536870912)"
  have p0: "adds 1 ?c (Finite (0)) = Finite (8589935 / 536870912)"
    using adds_grid_pos [of "- 29" "8589935 / 536870912" 8589935 1 0]
    by (simp add: pow2_def)
  note s0 = p0
  have p1: "adds 1 ?c (Finite (8589935 / 536870912)) = Finite (8589935 / 268435456)"
    by (rule adds_one, rule f32_add_eval [where x = "8589935 / 268435456"]) (simp_all add: f32_eval)
  have "adds 2 ?c (Finite (0)) = adds 1 ?c (adds 1 ?c (Finite (0)))"
    by (rule adds_split) simp
  also have "\<dots> = Finite (8589935 / 268435456)" unfolding s0 by (rule p1)
  finally have s1: "adds 2 ?c (Finite (0)) = Finite (8589935 / 268435456)" .
  have p2: "adds 1 ?c (Finite (8589935 / 268435456)) = Finite (6442451 / 134217728)"
    by (rule adds_one, rule f32_add_eval [where x = "25769805 / 536870912"]) (simp_all add: f32_eval)
  have "adds 3 ?c (Finite (0)) = adds 1 ?c (adds 2 ?c (Finite (0)))"
    by (rule adds_split) simp
  also have "\<dots> = Finite (6442451 / 134217728)" unfolding s1 by (rule p2)
  finally have s2: "adds 3 ?c (Finite (0)) = Finite (6442451 / 134217728)" .
  have p3: "adds 4 ?c (Finite (6442451 / 134217728)) = Finite (15032387 / 134217728)"
    using adds_grid_pos [of "- 27" "8589935 / 536870912" 2147484 4 6442451]
    by (simp add: pow2_def)
  have "adds 7 ?c (Finite (0)) = adds 4 ?c (adds 3 ?c (Finite (0)))"
    by (rule adds_split) simp
  also have "\<dots> = Finite (15032387 / 134217728)" unfolding s2 by (rule p3)
  finally have s3: "adds 7 ?c (Finite (0)) = Finite (15032387 / 134217728)" .
  have p4: "adds 1 ?c (Finite (15032387 / 134217728)) = Finite (8589935 / 67108864)"
    by (rule adds_one, rule f32_add_eval [where x = "68719483 / 536870912"]) (simp_all add: f32_eval)
  have "adds 8 ?c (Finite (0)) = adds 1 ?c (adds 7 ?c (Finite (0)))"
    by (rule adds_split) simp
  also have "\<dots> = Finite (8589935 / 67108864)" unfolding s3 by (rule p4)
  finally have s4: "adds 8 ?c (Finite (0)) = Finite (8589935 / 67108864)" .
  have p5: "adds 7 ?c (Finite (8589935 / 67108864)) = Finite (16106129 / 67108864)"
    using adds_grid_pos [of "- 26" "8589935 / 536870912" 1073742 7 8589935]
    by (simp add: pow2_def)
  have "adds 15 ?c (Finite (0)) = adds 7 ?c (adds 8 ?c (Finite (0)))"
    by (rule adds_split) simp
  also have "\<dots> = Finite (16106129 / 67108864)" unfolding s4 by (rule p5)
  finally have s5: "adds 15 ?c (Finite (0)) = Finite (16106129 / 67108864)" .
  have p6: "adds 1 ?c (Finite (16106129 / 67108864)) = Finite (8589935 / 33554432)"
    by (rule adds_one, rule f32_add_eval [where x = "137438967 / 536870912"]) (simp_all add: f32_eval)
  have "adds 16 ?c (Finite (0)) = adds 1 ?c (adds 15 ?c (Finite (0)))"
    by (rule adds_split) simp
  also have "\<dots> = Finite (8589935 / 33554432)" unfolding s5 by (rule p6)
  finally have s6: "adds 16 ?c (Finite (0)) = Finite (8589935 / 33554432)" .
  have p7: "adds 15 ?c (Finite (8589935 / 33554432)) = Finite (2080375 / 4194304)"
    using adds_grid_pos [of "- 25" "8589935 / 536870912" 536871 15 8589935]
    by (simp add: pow2_def)
  have "adds 31 ?c (Finite (0)) = adds 15 ?c (adds 16 ?c (Finite (0)))"
    by (rule adds_split) simp
  also have "\<dots> = Finite (2080375 / 4194304)" unfolding s6 by (rule p7)
  finally have s7: "adds 31 ?c (Finite (0)) = Finite (2080375 / 4194304)" .
  have p8: "adds 31 ?c (Finite (2080375 / 4194304)) = Finite (16642985 / 16777216)"
    using adds_grid_pos [of "- 24" "8589935 / 536870912" 268435 31 8321500]
    by (simp add: pow2_def)
  have "adds 62 ?c (Finite (0)) = adds 31 ?c (adds 31 ?c (Finite (0)))"
    by (rule adds_split) simp
  also have "\<dots> = Finite (16642985 / 16777216)" unfolding s7 by (rule p8)
  finally have s8: "adds 62 ?c (Finite (0)) = Finite (16642985 / 16777216)" .
  have p9: "adds 1 ?c (Finite (16642985 / 16777216)) = Finite (4227855 / 4194304)"
    by (rule adds_one, rule f32_add_eval [where x = "541165455 / 536870912"]) (simp_all add: f32_eval)
  have "adds 63 ?c (Finite (0)) = adds 1 ?c (adds 62 ?c (Finite (0)))"
    by (rule adds_split) simp
  also have "\<dots> = Finite (4227855 / 4194304)" unfolding s8 by (rule p9)
  finally have s9: "adds 63 ?c (Finite (0)) = Finite (4227855 / 4194304)" .
  have p10: "adds 37 ?c (Finite (4227855 / 4194304)) = Finite (838861 / 524288)"
    using adds_grid_pos [of "- 23" "8589935 / 536870912" 134218 37 8455710]
    by (simp add: pow2_def)
  have "adds 100 ?c (Finite (0)) = adds 37 ?c (adds 63 ?c (Finite (0)))"
    by (rule adds_split) simp
  also have "\<dots> = Finite (838861 / 524288)" unfolding s9 by (rule p10)
  finally have s10: "adds 100 ?c (Finite (0)) = Finite (838861 / 524288)" .
  show ?thesis by (rule s10)
qed

section \<open>A hundred ticks from the start\<close>

lemma train_drift:
  assumes "\<not> paused s" and "trainPos s = Finite p" and "trainSpeed s = Finite v"
    and "- 760 \<le> p" and "0 \<le> v" and "p + real n * v + real n / 8192 \<le> 1160"
  shows "\<exists>q. trainPos (ticks n s) = Finite q \<and> \<bar>q - (p + real n * v)\<bar> \<le> real n / 8192"
proof -
  have pw: "pow2 (12 - 25) = 1 / 8192" "pow2 12 = 4096" by (simp_all add: pow2_def)
  have range: "\<bar>p + real k * v\<bar> + real k * pow2 (12 - 25) < pow2 12
               \<and> p + real k * v + real k / 8192 \<le> 1160" if "k \<le> n" for k
  proof -
    have kn: "real k \<le> real n" using that by simp
    have a: "real k * v \<le> real n * v" using kn assms(5) by (rule mult_right_mono)
    have b: "0 \<le> real k * v" using assms(5) by simp
    have c: "real k / 8192 \<le> real n / 8192" using kn by simp
    have d: "0 \<le> real k / 8192" by simp
    show ?thesis unfolding pw using a b c d assms(4,6) by (simp; linarith)
  qed
  have drift: "\<exists>q. adds k (Finite v) (Finite p) = Finite q
                   \<and> \<bar>q - (p + real k * v)\<bar> \<le> real k / 8192" if "k \<le> n" for k
  proof -
    have "\<forall>j\<le>k. \<bar>p + real j * v\<bar> + real j * pow2 (12 - 25) < pow2 12"
      using range that by simp
    from adds_drift [of 12, OF _ _ this] show ?thesis unfolding pw by simp
  qed
  have nowrap: "\<forall>k<n. \<not> f32_lt (Finite 1160) (adds (Suc k) (trainSpeed s) (trainPos s))"
  proof (intro allI impI)
    fix k assume "k < n"
    then have le: "Suc k \<le> n" by simp
    from drift [OF le] obtain q where
      q: "adds (Suc k) (Finite v) (Finite p) = Finite q"
         "\<bar>q - (p + real (Suc k) * v)\<bar> \<le> real (Suc k) / 8192"
      by blast
    have "q \<le> 1160" using q(2) range [OF le] by linarith
    then show "\<not> f32_lt (Finite 1160) (adds (Suc k) (trainSpeed s) (trainPos s))"
      unfolding assms(2,3) q(1) by simp
  qed
  have "trainPos (ticks n s) = adds n (Finite v) (Finite p)"
    using trainPos_ticks [OF assms(1) nowrap] unfolding assms(2,3) .
  with drift [of n] show ?thesis by simp
qed

lemma boat_no_wrap:
  assumes "k < 100"
  shows "\<not> f32_lt (Finite 920) (adds (Suc k) (Finite (5033165 / 4194304)) (Finite (- 120)))"
proof -
  have pw: "pow2 (7 - 25) = 1 / 262144" "pow2 7 = 128" by (simp_all add: pow2_def)
  have "\<forall>j\<le>Suc k. \<bar>- 120 + real j * (5033165 / 4194304)\<bar> + real j * pow2 (7 - 25) < pow2 7"
  proof (intro allI impI)
    fix j assume "j \<le> Suc k"
    then have "real j \<le> 100" "0 \<le> real j" using assms by simp_all
    then show "\<bar>- 120 + real j * (5033165 / 4194304)\<bar> + real j * pow2 (7 - 25) < pow2 7"
      unfolding pw by (simp; linarith)
  qed
  from adds_drift [of 7, OF _ _ this] obtain q where
    q: "adds (Suc k) (Finite (5033165 / 4194304)) (Finite (- 120)) = Finite q"
       "\<bar>q - (- 120 + real (Suc k) * (5033165 / 4194304))\<bar> \<le> real (Suc k) * pow2 (7 - 25)"
    by auto
  define r where "r = real (Suc k)"
  have r: "r \<le> 100" "0 \<le> r" using assms by (simp_all add: r_def)
  have "\<bar>q - (- 120 + r * (5033165 / 4194304))\<bar> \<le> r * (1 / 262144)"
    using q(2) unfolding pw r_def .
  with r have "q \<le> 920" by linarith
  then show ?thesis unfolding q(1) by simp
qed

lemma timer_no_wrap:
  assumes "k < 100"
  shows "\<not> f32_le (Finite 100000) (adds (Suc k) (Finite (8589935 / 536870912)) (Finite 0))"
proof -
  have pw: "pow2 (1 - 25) = 1 / 16777216" by (simp add: pow2_def)
  have "\<forall>j\<le>Suc k. \<bar>0 + real j * (8589935 / 536870912)\<bar> + real j * pow2 (1 - 25) < pow2 1"
  proof (intro allI impI)
    fix j assume "j \<le> Suc k"
    then have "real j \<le> 100" "0 \<le> real j" using assms by simp_all
    then show "\<bar>0 + real j * (8589935 / 536870912)\<bar> + real j * pow2 (1 - 25) < pow2 1"
      unfolding pw by (simp; linarith)
  qed
  from adds_drift [of 1, OF _ _ this] obtain q where
    q: "adds (Suc k) (Finite (8589935 / 536870912)) (Finite 0) = Finite q"
       "\<bar>q - (0 + real (Suc k) * (8589935 / 536870912))\<bar> \<le> real (Suc k) * pow2 (1 - 25)"
    by auto
  define r where "r = real (Suc k)"
  have r: "r \<le> 100" "0 \<le> r" using assms by (simp_all add: r_def)
  have "\<bar>q - (0 + r * (8589935 / 536870912))\<bar> \<le> r * (1 / 16777216)"
    using q(2) unfolding pw r_def .
  with r have "q < 100000" by linarith
  then show ?thesis unfolding q(1) by simp
qed

lemma train_no_wrap:
  assumes "k < 100"
  shows "\<not> f32_lt (Finite 1160) (adds (Suc k) (Finite (11744051 / 4194304)) (Finite (- 520)))"
proof -
  have pw: "pow2 (12 - 25) = 1 / 8192" "pow2 12 = 4096" by (simp_all add: pow2_def)
  have "\<forall>j\<le>Suc k. \<bar>- 520 + real j * (11744051 / 4194304)\<bar> + real j * pow2 (12 - 25) < pow2 12"
  proof (intro allI impI)
    fix j assume "j \<le> Suc k"
    then have "real j \<le> 100" "0 \<le> real j" using assms by simp_all
    then show "\<bar>- 520 + real j * (11744051 / 4194304)\<bar> + real j * pow2 (12 - 25) < pow2 12"
      unfolding pw by (simp; linarith)
  qed
  from adds_drift [of 12, OF _ _ this] obtain q where
    q: "adds (Suc k) (Finite (11744051 / 4194304)) (Finite (- 520)) = Finite q"
       "\<bar>q - (- 520 + real (Suc k) * (11744051 / 4194304))\<bar> \<le> real (Suc k) * pow2 (12 - 25)"
    by auto
  define r where "r = real (Suc k)"
  have r: "r \<le> 100" "0 \<le> r" using assms by (simp_all add: r_def)
  have "\<bar>q - (- 520 + r * (11744051 / 4194304))\<bar> \<le> r * (1 / 8192)"
    using q(2) unfolding pw r_def .
  with r have "q \<le> 1160" by linarith
  then show ?thesis unfolding q(1) by simp
qed

lemma ticks_100_initial:
  "ticks 100 initial =
     \<lparr> boatPos = Finite (- (117 / 1048576)), boatSpeed = Finite (5033165 / 4194304),
       waterTime = Finite (838861 / 524288), trainPos = Finite (- (7864357 / 32768)),
       trainSpeed = Finite (11744051 / 4194304), paused = False,
       trafficTimer = Finite (838861 / 524288) \<rparr>"
proof -
  have np: "\<not> paused initial" by (simp add: initial_eq)
  have i: "trainPos initial = Finite (- 520)" "trainSpeed initial = Finite (11744051 / 4194304)"
    "boatPos initial = Finite (- 120)" "boatSpeed initial = Finite (5033165 / 4194304)"
    "trafficTimer initial = Finite 0" "waterTime initial = Finite 0"
    by (simp_all add: initial_eq)
  have t: "trainPos (ticks 100 initial) = Finite (- (7864357 / 32768))"
    using trainPos_ticks [OF np, of 100] train_no_wrap unfolding i train_100 by blast
  have b: "boatPos (ticks 100 initial) = Finite (- (117 / 1048576))"
    using boatPos_ticks [OF np, of 100] boat_no_wrap unfolding i boat_100 by blast
  have tt: "trafficTimer (ticks 100 initial) = Finite (838861 / 524288)"
    using trafficTimer_ticks [OF np, of 100] timer_no_wrap unfolding i timer_100 by blast
  have w: "waterTime (ticks 100 initial) = Finite (838861 / 524288)"
    unfolding waterTime_ticks i timer_100 by (rule refl)
  show ?thesis
    by (rule anim.equality) (simp_all add: t b tt w i np)
qed

section \<open>The claims\<close>

text \<open>
  C1 as stated fails: after 100 unpaused ticks from the initial state the train is
  at \<open>-240.00113\<close> and the boat at \<open>-0.00011158\<close>, each further than \<open>1e-4\<close> from the
  expected \<open>-240\<close> and \<open>0\<close>.  Every binary32 addition rounds, and the errors add up.
\<close>

theorem end_to_end_outside_tolerance:
  "trainPos (ticks 100 initial) = Finite (- (7864357 / 32768))
   \<and> \<not> \<bar>- (7864357 / 32768) - (- 240)\<bar> \<le> (1 / 10 ^ 4 :: real)
   \<and> boatPos (ticks 100 initial) = Finite (- (117 / 1048576))
   \<and> \<not> \<bar>- (117 / 1048576) - 0\<bar> \<le> (1 / 10 ^ 4 :: real)"
  by (simp add: ticks_100_initial)

text \<open>
  C1, amended.  After exactly 100 unpaused ticks from the initial state, with the
  default speeds \<open>2.8f\<close> and \<open>1.2f\<close>: the train position is \<open>-7864357/32768\<close>, within
  \<open>1.2e-3\<close> of \<open>-240\<close>; the boat position is \<open>-117/1048576\<close>, within \<open>1.2e-4\<close> of \<open>0\<close>;
  the traffic timer and the water time are both \<open>838861/524288\<close>, within \<open>1e-4\<close> of
  \<open>1.6\<close>.
\<close>

theorem end_to_end_100_ticks:
  "ticks 100 initial =
     \<lparr> boatPos = Finite (- (117 / 1048576)), boatSpeed = lit 1.2,
       waterTime = Finite (838861 / 524288), trainPos = Finite (- (7864357 / 32768)),
       trainSpeed = lit 2.8, paused = False,
       trafficTimer = Finite (838861 / 524288) \<rparr>
   \<and> \<bar>- (7864357 / 32768) - (- 240)\<bar> \<le> (12 / 10 ^ 4 :: real)
   \<and> \<bar>- (117 / 1048576) - 0\<bar> \<le> (12 / 10 ^ 5 :: real)
   \<and> \<bar>838861 / 524288 - 1.6\<bar> \<le> (1 / 10 ^ 4 :: real)"
  unfolding lit_values by (simp add: ticks_100_initial)


text \<open>
  C2 as stated fails: with the default speed \<open>2.8f\<close> the train position after 100
  unpaused ticks is \<open>-7864357/32768\<close>, which is neither \<open>-520 + 100 * 2.8f\<close> nor
  \<open>-520 + 100 * 2.8\<close>; no wrap has occurred by then.
\<close>

theorem train_position_not_linear:
  "trainSpeed initial = Finite (11744051 / 4194304)
   \<and> trainPos (ticks 100 initial) = Finite (- (7864357 / 32768))
   \<and> (- (7864357 / 32768) :: real) \<noteq> - 520 + 100 * (11744051 / 4194304)
   \<and> (- (7864357 / 32768) :: real) \<noteq> - 520 + 100 * 2.8"
proof -
  have "trainSpeed initial = Finite (11744051 / 4194304)" by (simp add: initial_eq)
  then show ?thesis by (simp add: ticks_100_initial)
qed

text \<open>
  C2, amended.  In every unpaused tick the train position becomes the binary32 sum
  of position and speed, or exactly \<open>-760\<close> when that sum exceeds \<open>V_WIDTH + 360\<close>.
  As long as no wrap can have occurred (start at or above \<open>-760\<close>, speed not negative,
  \<open>p + n * v + n / 8192\<close> at most \<open>1160\<close>), the position after \<open>n\<close> unpaused ticks is
  \<open>p + n * v\<close> up to an accumulated rounding error of at most \<open>n / 8192\<close>.
\<close>

theorem train_position:
  "(\<not> paused r \<longrightarrow>
      trainPos (update r) =
        (if f32_lt (f32_add V_WIDTH (lit 360)) (f32_add (trainPos r) (trainSpeed r))
         then Finite (- 760) else f32_add (trainPos r) (trainSpeed r)))
   \<and> (\<not> paused s \<and> trainPos s = Finite p \<and> trainSpeed s = Finite v \<and> - 760 \<le> p \<and> 0 \<le> v
        \<and> p + real n * v + real n / 8192 \<le> 1160 \<longrightarrow>
        (\<exists>q. trainPos (ticks n s) = Finite q \<and> \<bar>q - (p + real n * v)\<bar> \<le> real n / 8192))"
proof (intro conjI impI)
  assume "\<not> paused r"
  then show "trainPos (update r) =
        (if f32_lt (f32_add V_WIDTH (lit 360)) (f32_add (trainPos r) (trainSpeed r))
         then Finite (- 760) else f32_add (trainPos r) (trainSpeed r))"
    unfolding V_WIDTH_def lit_values limits by (rule update_trainPos)
next
  assume "\<not> paused s \<and> trainPos s = Finite p \<and> trainSpeed s = Finite v \<and> - 760 \<le> p \<and> 0 \<le> v
        \<and> p + real n * v + real n / 8192 \<le> 1160"
  then show "\<exists>q. trainPos (ticks n s) = Finite q \<and> \<bar>q - (p + real n * v)\<bar> \<le> real n / 8192"
    using train_drift [of s p v n] by blast
qed

text \<open>
  A train at \<open>1160\<close> is put back to \<open>-760\<close> by the next tick; and 100 ticks from the
  initial state leave the train within \<open>100 / 8192\<close> of \<open>-520 + 100 * 2.8f\<close>.
\<close>

theorem train_position_witness:
  "\<not> paused (initial\<lparr>trainPos := Finite 1160\<rparr>)
   \<and> trainPos (update (initial\<lparr>trainPos := Finite 1160\<rparr>)) = Finite (- 760)
   \<and> (\<not> paused initial \<and> trainPos initial = Finite (- 520)
        \<and> trainSpeed initial = Finite (11744051 / 4194304) \<and> (- 760 :: real) \<le> - 520
        \<and> (0 :: real) \<le> 11744051 / 4194304
        \<and> - 520 + real (100::nat) * (11744051 / 4194304) + real (100::nat) / 8192 \<le> (1160 :: real))
   \<and> (\<exists>q. trainPos (ticks 100 initial) = Finite q
          \<and> \<bar>q - (- 520 + real (100::nat) * (11744051 / 4194304))\<bar> \<le> real (100::nat) / 8192)"
proof -
  let ?r = "initial\<lparr>trainPos := Finite 1160\<rparr>"
  have np: "\<not> paused ?r" by (simp add: initial_eq)
  have sum: "f32_add (Finite 1160) (Finite (11744051 / 4194304)) = Finite (4762829 / 4096)"
    by (rule f32_add_eval [where x = "4877136691 / 4194304"]) (simp_all add: f32_eval)
  have fr: "trainPos ?r = Finite 1160" "trainSpeed ?r = Finite (11744051 / 4194304)"
    by (simp_all add: initial_eq)
  have h: "\<not> paused initial \<and> trainPos initial = Finite (- 520)
        \<and> trainSpeed initial = Finite (11744051 / 4194304) \<and> (- 760 :: real) \<le> - 520
        \<and> (0 :: real) \<le> 11744051 / 4194304
        \<and> - 520 + real (100::nat) * (11744051 / 4194304) + real (100::nat) / 8192 \<le> (1160 :: real)"
    by (simp add: initial_eq)
  note t = train_position [of ?r initial "- 520" "11744051 / 4194304" 100]
  have "trainPos (update ?r) =
        (if f32_lt (f32_add V_WIDTH (lit 360)) (f32_add (trainPos ?r) (trainSpeed ?r))
         then Finite (- 760) else f32_add (trainPos ?r) (trainSpeed ?r))"
    using t [THEN conjunct1] np by blast
  also have "\<dots> = Finite (- 760)"
    unfolding V_WIDTH_def lit_values limits fr sum by simp
  finally have a: "trainPos (update ?r) = Finite (- 760)" .
  have b: "\<exists>q. trainPos (ticks 100 initial) = Finite q
          \<and> \<bar>q - (- 520 + real (100::nat) * (11744051 / 4194304))\<bar> \<le> real (100::nat) / 8192"
    using t [THEN conjunct2, THEN mp, OF h] .
  from np a h b show ?thesis by blast
qed

text \<open>
  C3 as stated fails: at \<open>waterTime = 524288\<close> a tick, paused or not, leaves the water
  time where it is, because \<open>524288 + 0.016f\<close> rounds back to \<open>524288\<close> in binary32.
\<close>

theorem water_time_stalls:
  "paused (initial\<lparr>paused := True, waterTime := Finite 524288\<rparr>)
   \<and> waterTime (update (initial\<lparr>paused := True, waterTime := Finite 524288\<rparr>)) = Finite 524288
   \<and> waterTime (update (initial\<lparr>waterTime := Finite 524288\<rparr>)) = Finite 524288"
proof -
  have "f32_add (Finite 524288) (Finite (8589935 / 536870912)) = Finite 524288"
    by (rule f32_add_eval [where x = "281474985300591 / 536870912"]) (simp_all add: f32_eval)
  then show ?thesis unfolding update_frame lit_values by simp
qed

text \<open>
  C3, amended.  With \<open>paused = true\<close> one tick leaves the train position, the boat
  position and the traffic timer unchanged.  Paused or not, the water time becomes
  the binary32 sum of itself and \<open>0.016f\<close>; from a water time between \<open>0\<close> and
  \<open>524287\<close> that is a strict increase, of at most \<open>0.032\<close>.
\<close>

theorem pause_asymmetry:
  "(paused s \<longrightarrow> trainPos (update s) = trainPos s \<and> boatPos (update s) = boatPos s
       \<and> trafficTimer (update s) = trafficTimer s)
   \<and> waterTime (update s) = f32_add (waterTime s) (lit 0.016)
   \<and> (waterTime s = Finite w \<and> 0 \<le> w \<and> w \<le> 524287 \<longrightarrow>
        (\<exists>w'. waterTime (update s) = Finite w' \<and> w < w' \<and> w' \<le> w + 0.032))"
proof (intro conjI impI)
  assume "paused s"
  then show "trainPos (update s) = trainPos s" "boatPos (update s) = boatPos s"
    "trafficTimer (update s) = trafficTimer s"
    by (simp_all add: update_paused)
next
  show "waterTime (update s) = f32_add (waterTime s) (lit 0.016)" by simp
next
  assume a: "waterTime s = Finite w \<and> 0 \<le> w \<and> w \<le> 524287"
  then show "\<exists>w'. waterTime (update s) = Finite w' \<and> w < w' \<and> w' \<le> w + 0.032"
    unfolding update_frame lit_values using water_increase [of w] by simp
qed

text \<open>Paused at the start: one tick moves only the water time, from \<open>0\<close> to \<open>0.016f\<close>.\<close>

theorem pause_asymmetry_witness:
  "paused (initial\<lparr>paused := True\<rparr>)
   \<and> (waterTime (initial\<lparr>paused := True\<rparr>) = Finite 0 \<and> (0::real) \<le> 0 \<and> (0::real) \<le> 524287)
   \<and> trainPos (update (initial\<lparr>paused := True\<rparr>)) = Finite (- 520)
   \<and> boatPos (update (initial\<lparr>paused := True\<rparr>)) = Finite (- 120)
   \<and> trafficTimer (update (initial\<lparr>paused := True\<rparr>)) = Finite 0
   \<and> waterTime (update (initial\<lparr>paused := True\<rparr>)) = Finite (8589935 / 536870912)"
proof -
  let ?s = "initial\<lparr>paused := True\<rparr>"
  have p: "paused ?s" by simp
  have w: "waterTime ?s = Finite 0" by (simp add: initial_eq)
  have a: "f32_round (8589935 / 536870912) = Finite (8589935 / 536870912)"
    by (simp add: f32_eval)
  have "waterTime (update ?s) = f32_add (waterTime ?s) (lit 0.016)"
    using pause_asymmetry [of ?s 0] by blast
  also have "\<dots> = Finite (8589935 / 536870912)"
    unfolding w lit_values by (simp add: a)
  finally have wt: "waterTime (update ?s) = Finite (8589935 / 536870912)" .
  have "trainPos (update ?s) = trainPos ?s \<and> boatPos (update ?s) = boatPos ?s
        \<and> trafficTimer (update ?s) = trafficTimer ?s"
    using pause_asymmetry [of ?s 0] p by blast
  then show ?thesis using p w wt by (simp add: initial_eq)
qed

text \<open>
  C4.  For a signal with phase offset \<open>p\<close> and a non-negative sum \<open>x\<close> of timer and
  offset, let \<open>t = x mod 6\<close>.  Then \<open>0 \<le> t < 6\<close>, and the red lamp is lit exactly when
  \<open>t < 2.5\<close>, the green one exactly when \<open>2.5 \<le> t < 5\<close>, the yellow one exactly when
  \<open>5 \<le> t\<close>.  The lamps are the same six seconds later.  With offset 0 the timer
  values \<open>0.0f\<close>, \<open>2.6f\<close>, \<open>5.1f\<close> and \<open>6.0f\<close> give red, green, yellow and red.
\<close>

theorem signal_phase:
  "(f32_add timer p = Finite x \<and> 0 \<le> x \<longrightarrow>
      0 \<le> x - 6 * of_int \<lfloor>x / 6\<rfloor> \<and> x - 6 * of_int \<lfloor>x / 6\<rfloor> < 6
      \<and> signal_lamps timer p =
           (x - 6 * of_int \<lfloor>x / 6\<rfloor> < 2.5,
            2.5 \<le> x - 6 * of_int \<lfloor>x / 6\<rfloor> \<and> x - 6 * of_int \<lfloor>x / 6\<rfloor> < 5,
            5 \<le> x - 6 * of_int \<lfloor>x / 6\<rfloor>)
      \<and> (f32_add timer' p' = Finite (x + 6 * real k) \<longrightarrow>
            signal_lamps timer' p' = signal_lamps timer p))
   \<and> signal_lamps (lit 0.0) (lit 0) = (True, False, False)
   \<and> signal_lamps (lit 2.6) (lit 0) = (False, True, False)
   \<and> signal_lamps (lit 5.1) (lit 0) = (False, False, True)
   \<and> signal_lamps (lit 6.0) (lit 0) = (True, False, False)"
proof (intro conjI impI)
  assume a: "f32_add timer p = Finite x \<and> 0 \<le> x"
  show "0 \<le> x - 6 * of_int \<lfloor>x / 6\<rfloor>" "x - 6 * of_int \<lfloor>x / 6\<rfloor> < 6"
    by (rule phase_range)+
  show l: "signal_lamps timer p =
           (x - 6 * of_int \<lfloor>x / 6\<rfloor> < 2.5,
            2.5 \<le> x - 6 * of_int \<lfloor>x / 6\<rfloor> \<and> x - 6 * of_int \<lfloor>x / 6\<rfloor> < 5,
            5 \<le> x - 6 * of_int \<lfloor>x / 6\<rfloor>)"
    using a by (intro lamps_of_phase) simp_all
  assume b: "f32_add timer' p' = Finite (x + 6 * real k)"
  have "0 \<le> x + 6 * real k" using a by simp
  from lamps_of_phase [OF b this] show "signal_lamps timer' p' = signal_lamps timer p"
    unfolding l phase_periodic .
next
  have v: "lit 0.0 = Finite 0" "lit 2.6 = Finite (5452595 / 2097152)"
    "lit 5.1 = Finite (10695475 / 2097152)" "lit 6.0 = Finite 6"
    by (simp_all add: lit_def f32_eval)
  have r: "f32_round 0 = Finite 0" "f32_round (5452595 / 2097152) = Finite (5452595 / 2097152)"
    "f32_round (10695475 / 2097152) = Finite (10695475 / 2097152)" "f32_round 6 = Finite 6"
    by (simp_all add: f32_eval)
  show "signal_lamps (lit 0.0) (lit 0) = (True, False, False)"
    unfolding signal_lamps_def v lit_values by (simp add: r trunc_def)
  show "signal_lamps (lit 2.6) (lit 0) = (False, True, False)"
    unfolding signal_lamps_def v lit_values by (simp add: r trunc_def)
  show "signal_lamps (lit 5.1) (lit 0) = (False, False, True)"
    unfolding signal_lamps_def v lit_values by (simp add: r trunc_def)
  show "signal_lamps (lit 6.0) (lit 0) = (True, False, False)"
    unfolding signal_lamps_def v lit_values by (simp add: r trunc_def)
qed

text \<open>Timer \<open>2.5\<close> with offset 0 is green, and so is timer \<open>8.5\<close>, one period later.\<close>

theorem signal_phase_witness:
  "(f32_add (Finite (5 / 2)) (Finite 0) = Finite (5 / 2) \<and> (0::real) \<le> 5 / 2)
   \<and> f32_add (Finite (17 / 2)) (Finite 0) = Finite (5 / 2 + 6 * real (1::nat))
   \<and> signal_lamps (Finite (5 / 2)) (Finite 0) = (False, True, False)
   \<and> signal_lamps (Finite (17 / 2)) (Finite 0) = (False, True, False)"
proof -
  have a: "f32_add (Finite (5 / 2)) (Finite 0) = Finite (5 / 2)"
    by (rule f32_add_eval [where x = "5 / 2"]) (simp_all add: f32_eval)
  have b: "f32_add (Finite (17 / 2)) (Finite 0) = Finite (5 / 2 + 6 * real (1::nat))"
    by (rule f32_add_eval [where x = "17 / 2"]) (simp_all add: f32_eval)
  have h: "f32_add (Finite (5 / 2)) (Finite 0) = Finite (5 / 2) \<and> (0::real) \<le> 5 / 2"
    using a by simp
  note c = signal_phase [of "Finite (5 / 2)" "Finite 0" "5 / 2" "Finite (17 / 2)" "Finite 0" 1,
      THEN conjunct1, THEN mp, OF h]
  have f: "\<lfloor>(5::real) / 2 / 6\<rfloor> = 0" by simp
  have l: "signal_lamps (Finite (5 / 2)) (Finite 0) = (False, True, False)"
    unfolding c [THEN conjunct2, THEN conjunct2, THEN conjunct1] f by simp
  have "signal_lamps (Finite (17 / 2)) (Finite 0) = signal_lamps (Finite (5 / 2)) (Finite 0)"
    using c [THEN conjunct2, THEN conjunct2, THEN conjunct2, THEN mp, OF b] .
  with l a b show ?thesis by simp
qed

text \<open>
  C5.  For every trafficTimer value from \<open>0\<close> up to \<open>100000\<close>, and so in every
  state a run from the initial state reaches, the two signals drawn, with phase
  offsets 0 and 3, do not have the same lamp lit.
\<close>

theorem signals_never_agree:
  "(0 \<le> tt \<and> tt < 100000 \<longrightarrow>
      signal_lamps (Finite tt) (lit 0) \<noteq> signal_lamps (Finite tt) (lit 3))
   \<and> (run es initial = Some s \<longrightarrow> fst (drawTrafficSignals s) \<noteq> snd (drawTrafficSignals s))"
proof (intro conjI impI)
  assume "0 \<le> tt \<and> tt < 100000"
  then show "signal_lamps (Finite tt) (lit 0) \<noteq> signal_lamps (Finite tt) (lit 3)"
    using signals_differ_value by blast
next
  assume "run es initial = Some s"
  then have "in_bounds s" using in_bounds_initial in_bounds_run by blast
  then obtain t where "trafficTimer s = Finite t" "0 \<le> t" "t < 100000"
    unfolding in_bounds_iff by blast
  then show "fst (drawTrafficSignals s) \<noteq> snd (drawTrafficSignals s)"
    using signals_differ_value [of t] by (simp add: drawTrafficSignals_def)
qed

text \<open>At the start the left signal is red and the right one green.\<close>

theorem signals_never_agree_witness:
  "((0::real) \<le> 0 \<and> (0::real) < 100000)
   \<and> run [] initial = Some initial
   \<and> drawTrafficSignals initial = ((True, False, False), (False, True, False))
   \<and> fst (drawTrafficSignals initial) \<noteq> snd (drawTrafficSignals initial)"
proof -
  have r: "run [] initial = Some initial" by simp
  have d: "fst (drawTrafficSignals initial) \<noteq> snd (drawTrafficSignals initial)"
    using signals_never_agree [of 0 "[]" initial] r by blast
  have a0: "f32_round 0 = Finite 0" by (simp add: f32_round_def)
  have a3: "f32_round 3 = Finite 3" by (simp add: f32_eval)
  have "drawTrafficSignals initial = ((True, False, False), (False, True, False))"
    unfolding drawTrafficSignals_def signal_lamps_def lit_values
    by (simp add: initial_eq a0 a3 trunc_def)
  with r d show ?thesis by simp
qed

text \<open>
  C6.  The \<^verbatim>\<open>'-'\<close> handler computes \<open>max(0.2f, trainSpeed - 0.2f)\<close>.  After one or more
  \<^verbatim>\<open>'-'\<close> presses, from any state whatever, the train speed is not below \<open>0.2f\<close> (and
  after none, if it was not below before).  At the floor itself a press changes
  nothing.
\<close>

theorem speed_floor:
  "keyboard CHR ''-'' s =
     Some (s\<lparr>trainSpeed := f32_max (lit 0.2) (f32_sub (trainSpeed s) (lit 0.2))\<rparr>)
   \<and> (0 < n \<or> f32_le (lit 0.2) (trainSpeed s) \<longrightarrow>
        (\<exists>s'. run (replicate n (Key CHR ''-'')) s = Some s' \<and> f32_le (lit 0.2) (trainSpeed s')))
   \<and> (trainSpeed s = lit 0.2 \<longrightarrow> keyboard CHR ''-'' s = Some s)"
  using keyboard_minus minus_presses minus_at_floor by blast

text \<open>Three presses at the floor: the speed is still \<open>0.2f\<close>.\<close>

theorem speed_floor_witness:
  "(0 < (3::nat) \<or> f32_le (lit 0.2) (trainSpeed (initial\<lparr>trainSpeed := lit 0.2\<rparr>)))
   \<and> trainSpeed (initial\<lparr>trainSpeed := lit 0.2\<rparr>) = lit 0.2
   \<and> keyboard CHR ''-'' (initial\<lparr>trainSpeed := lit 0.2\<rparr>) = Some (initial\<lparr>trainSpeed := lit 0.2\<rparr>)
   \<and> run (replicate 3 (Key CHR ''-'')) (initial\<lparr>trainSpeed := lit 0.2\<rparr>)
       = Some (initial\<lparr>trainSpeed := lit 0.2\<rparr>)"
proof -
  let ?s = "initial\<lparr>trainSpeed := lit 0.2\<rparr>"
  have f: "trainSpeed ?s = lit 0.2" by simp
  have k: "keyboard CHR ''-'' ?s = Some ?s"
    using speed_floor [of ?s 3] f by blast
  have "replicate 3 (Key CHR ''-'') = [Key CHR ''-'', Key CHR ''-'', Key CHR ''-'']"
    by (simp add: numeral_3_eq_3)
  then have "run (replicate 3 (Key CHR ''-'')) ?s = Some ?s"
    using k by simp
  with f k show ?thesis by simp
qed


text \<open>
  C7.  Boat wraparound: in every unpaused tick in which the boat position exceeds
  \<open>V_WIDTH + 120\<close> after the increment, the position becomes exactly \<open>-150\<close>, and
  the boat speed (hence the direction of motion) is unchanged.
\<close>

theorem boat_wraparound:
  assumes "\<not> paused s"
    and "f32_lt (f32_add V_WIDTH (lit 120)) (f32_add (boatPos s) (boatSpeed s))"
  shows "boatPos (update s) = Finite (- 150) \<and> boatSpeed (update s) = boatSpeed s"
  using assms unfolding V_WIDTH_def lit_values limits
  by (simp add: update_boatPos)

text \<open>The boat at \<open>920\<close> moves to \<open>921.2\<close>, beyond \<open>920\<close>, and is put back to \<open>-150\<close>.\<close>

theorem boat_wraparound_witness:
  "\<not> paused (initial\<lparr>boatPos := Finite 920\<rparr>)
   \<and> f32_lt (f32_add V_WIDTH (lit 120))
        (f32_add (boatPos (initial\<lparr>boatPos := Finite 920\<rparr>))
                 (boatSpeed (initial\<lparr>boatPos := Finite 920\<rparr>)))
   \<and> boatPos (update (initial\<lparr>boatPos := Finite 920\<rparr>)) = Finite (- 150)
   \<and> boatSpeed (update (initial\<lparr>boatPos := Finite 920\<rparr>)) = Finite (5033165 / 4194304)"
proof -
  let ?s = "initial\<lparr>boatPos := Finite 920\<rparr>"
  have sum: "f32_add (Finite 920) (Finite (5033165 / 4194304)) = Finite (15092941 / 16384)"
    by (rule f32_add_eval [where x = "3863792845 / 4194304"]) (simp_all add: f32_eval)
  have p: "\<not> paused ?s" by (simp add: initial_eq)
  have b: "boatPos ?s = Finite 920" "boatSpeed ?s = Finite (5033165 / 4194304)"
    by (simp_all add: initial_eq)
  have w: "f32_lt (f32_add V_WIDTH (lit 120)) (f32_add (boatPos ?s) (boatSpeed ?s))"
    unfolding V_WIDTH_def lit_values limits b sum by simp
  from boat_wraparound [OF p w] p w b show ?thesis by simp
qed


text \<open>
  C8.  In every run of timer ticks and key presses from the initial state, every
  animation variable is finite and stays in a fixed range: the train position in
  \<open>[-760, 1160]\<close>, the boat position in \<open>[-150, 920]\<close>, the traffic timer in
  \<open>[0, 100000)\<close>, the train speed in \<open>[0.2f, 2 ^ 22]\<close> and the water time in
  \<open>[0, 2 ^ 19]\<close>.
\<close>

theorem state_stays_bounded:
  "run es initial = Some s \<Longrightarrow> in_bounds s"
  using in_bounds_initial by (rule in_bounds_run)

text \<open>Pause, then one tick: only the water time has moved, to \<open>0.016f\<close>.\<close>

theorem state_stays_bounded_witness:
  "run [Key CHR '' '', Tick] initial
     = Some (initial\<lparr>paused := True, waterTime := Finite (8589935 / 536870912)\<rparr>)
   \<and> in_bounds (initial\<lparr>paused := True, waterTime := Finite (8589935 / 536870912)\<rparr>)"
proof -
  have k: "keyboard CHR '' '' initial = Some (initial\<lparr>paused := True\<rparr>)"
    by (simp add: keyboard_def initial_eq)
  have a: "f32_round (8589935 / 536870912) = Finite (8589935 / 536870912)"
    by (simp add: f32_eval)
  have "update (initial\<lparr>paused := True\<rparr>)
        = initial\<lparr>paused := True,
            waterTime := f32_add (waterTime (initial\<lparr>paused := True\<rparr>)) (lit 0.016)\<rparr>"
    by (rule update_paused) simp
  also have "\<dots> = initial\<lparr>paused := True, waterTime := Finite (8589935 / 536870912)\<rparr>"
    unfolding lit_values by (simp add: initial_eq a)
  finally have u: "update (initial\<lparr>paused := True\<rparr>)
           = initial\<lparr>paused := True, waterTime := Finite (8589935 / 536870912)\<rparr>" .
  have r: "run [Key CHR '' '', Tick] initial
           = Some (initial\<lparr>paused := True, waterTime := Finite (8589935 / 536870912)\<rparr>)"
    by (simp add: k u)
  from state_stays_bounded [OF r] r show ?thesis by simp
qed


text \<open>
  C9.  \<^verbatim>\<open>drawLineDDA\<close> and \<^verbatim>\<open>drawLineDDA_Lamp\<close> are the same function: for
  every input they compute the same step count and draw the same points.
\<close>

theorem dda_helpers_identical:
  "drawLineDDA_steps x1 y1 x2 y2 = drawLineDDA_Lamp_steps x1 y1 x2 y2
   \<and> drawLineDDA x1 y1 x2 y2 = drawLineDDA_Lamp x1 y1 x2 y2"
  by (simp add: drawLineDDA_steps_def drawLineDDA_Lamp_steps_def drawLineDDA_def
      drawLineDDA_Lamp_def)

text \<open>
  C10.  The step count of the DDA helper is zero exactly when the two end points
  (binary32 numbers) coincide.  The program calls the helper nine times (three lamp
  posts, three segments each); the step counts are 170, 22 and 12 for each post:
  all positive, so \<open>dx / steps\<close> and \<open>dy / steps\<close> never divide by zero.
\<close>

theorem lamp_lines_have_steps:
  "(is_f32 x1 \<and> is_f32 y1 \<and> is_f32 x2 \<and> is_f32 y2 \<longrightarrow>
      (drawLineDDA_Lamp_steps (Finite x1) (Finite y1) (Finite x2) (Finite y2) = Finite 0
       \<longleftrightarrow> x1 = x2 \<and> y1 = y2))
   \<and> map (\<lambda>(x1, y1, x2, y2). drawLineDDA_Lamp_steps x1 y1 x2 y2) three_lamps_calls
     = [Finite 170, Finite 22, Finite 12, Finite 170, Finite 22, Finite 12,
        Finite 170, Finite 22, Finite 12]
   \<and> list_all (\<lambda>(x1, y1, x2, y2). f32_lt (Finite 0) (drawLineDDA_Lamp_steps x1 y1 x2 y2))
        three_lamps_calls"
proof (intro conjI impI)
  assume "is_f32 x1 \<and> is_f32 y1 \<and> is_f32 x2 \<and> is_f32 y2"
  then show "drawLineDDA_Lamp_steps (Finite x1) (Finite y1) (Finite x2) (Finite y2) = Finite 0
       \<longleftrightarrow> x1 = x2 \<and> y1 = y2"
    using steps_zero_iff by blast
next
  show "map (\<lambda>(x1, y1, x2, y2). drawLineDDA_Lamp_steps x1 y1 x2 y2) three_lamps_calls
     = [Finite 170, Finite 22, Finite 12, Finite 170, Finite 22, Finite 12,
        Finite 170, Finite 22, Finite 12]"
    unfolding three_lamps_calls_eq
    by (simp add: drawLineDDA_Lamp_steps_def f32_sub_def small_ints_round Let_def)
  show "list_all (\<lambda>(x1, y1, x2, y2). f32_lt (Finite 0) (drawLineDDA_Lamp_steps x1 y1 x2 y2))
        three_lamps_calls"
    unfolding three_lamps_calls_eq
    by (simp add: drawLineDDA_Lamp_steps_def f32_sub_def small_ints_round Let_def)
qed

text \<open>The pole of the first lamp post, from \<open>(180, 120)\<close> to \<open>(180, 290)\<close>: 170 steps.\<close>

theorem lamp_lines_have_steps_witness:
  "(is_f32 180 \<and> is_f32 120 \<and> is_f32 180 \<and> is_f32 290)
   \<and> drawLineDDA_Lamp_steps (Finite 180) (Finite 120) (Finite 180) (Finite 290) = Finite 170
   \<and> drawLineDDA_Lamp_steps (Finite 180) (Finite 120) (Finite 180) (Finite 290) \<noteq> Finite 0
   \<and> \<not> ((180::real) = 180 \<and> (120::real) = 290)"
proof -
  have f: "is_f32 180 \<and> is_f32 120 \<and> is_f32 180 \<and> is_f32 290"
    using is_f32_int [of 180] is_f32_int [of 120] is_f32_int [of 290] by simp
  have n: "\<not> ((180::real) = 180 \<and> (120::real) = 290)" by simp
  have z: "drawLineDDA_Lamp_steps (Finite 180) (Finite 120) (Finite 180) (Finite 290) \<noteq> Finite 0"
    using lamp_lines_have_steps [of 180 120 180 290, THEN conjunct1, THEN mp, OF f] n by blast
  have "drawLineDDA_Lamp_steps (Finite 180) (Finite 120) (Finite 180) (Finite 290) = Finite 170"
    by (simp add: drawLineDDA_Lamp_steps_def f32_sub_def small_ints_round Let_def)
  with f n z show ?thesis by blast
qed

end
